theory Spec2Isabelle
  imports Main "HOL-Library.Word" "HOL-Library.Char_ord" "HOL-Library.List_Lexorder"
begin

section \<open>Bytes and the struct module\<close>

text \<open>
  A Python \<^verbatim>\<open>bytes\<close> object is a list of bytes; HOL's \<^typ>\<open>char\<close> is a byte, so byte
  strings are written as string literals. The same type stands for the ASCII text that
  \<^verbatim>\<open>str()\<close> produces for numbers.
\<close>

type_synonym bytes = string

text \<open>Exceptions of the Python runtime that the adapters can let through.\<close>

datatype pyexc = StructError | KeyError | IndexError | UnicodeEncodeError
  | UnicodeDecodeError | ValueError | InvalidOperation

text \<open>
  \<^verbatim>\<open>struct.Struct("!h")\<close>, \<^verbatim>\<open>"!i"\<close>, \<^verbatim>\<open>"!q"\<close> and \<^verbatim>\<open>"!I"\<close>: network byte order, two's
  complement, fixed width. \<open>be_enc n x\<close> is the \<open>n\<close> low bytes of \<open>x\<close>, most significant
  first; \<open>pack\<close> raises \<^verbatim>\<open>struct.error\<close> outside the range of the format and \<open>unpack\<close>
  raises it when the buffer has not exactly the size of the format.
\<close>

fun be_enc :: "nat \<Rightarrow> int \<Rightarrow> bytes" where
  "be_enc 0 x = []"
| "be_enc (Suc n) x = be_enc n (x div 256) @ [char_of (x mod 256)]"

definition be_dec :: "bytes \<Rightarrow> int" where
  "be_dec bs = foldl (\<lambda>a c. a * 256 + of_char c) 0 bs"

definition pack_signed :: "nat \<Rightarrow> int \<Rightarrow> pyexc + bytes" where
  "pack_signed n x =
     (if - (2 ^ (8 * n - 1)) \<le> x \<and> x \<le> 2 ^ (8 * n - 1) - 1
      then Inr (be_enc n x) else Inl StructError)"

definition unpack_signed :: "nat \<Rightarrow> bytes \<Rightarrow> pyexc + int" where
  "unpack_signed n bs =
     (if length bs \<noteq> n then Inl StructError
      else let u = be_dec bs in
        Inr (if 2 ^ (8 * n - 1) \<le> u then u - 2 ^ (8 * n) else u))"

definition pack_unsigned :: "nat \<Rightarrow> int \<Rightarrow> pyexc + bytes" where
  "pack_unsigned n x =
     (if 0 \<le> x \<and> x \<le> 2 ^ (8 * n) - 1 then Inr (be_enc n x) else Inl StructError)"

definition unpack_unsigned :: "nat \<Rightarrow> bytes \<Rightarrow> pyexc + int" where
  "unpack_unsigned n bs = (if length bs \<noteq> n then Inl StructError else Inr (be_dec bs))"

definition int2_pack :: "int \<Rightarrow> pyexc + bytes" where "int2_pack = pack_signed 2"
definition int4_pack :: "int \<Rightarrow> pyexc + bytes" where "int4_pack = pack_signed 4"
definition int8_pack :: "int \<Rightarrow> pyexc + bytes" where "int8_pack = pack_signed 8"

text \<open>\<^verbatim>\<open>str(n)\<close> for a Python int: the decimal digits, with a minus sign when negative.\<close>

definition digit_char :: "nat \<Rightarrow> char" where
  "digit_char d = ''0123456789'' ! d"

function str_nat :: "nat \<Rightarrow> string" where
  "str_nat n = (if n < 10 then [digit_char n] else str_nat (n div 10) @ [digit_char (n mod 10)])"
  by pat_completeness auto
termination
  by (relation "measure id") auto

declare str_nat.simps [simp del]

definition str_int :: "int \<Rightarrow> string" where
  "str_int i = (if i < 0 then CHR ''-'' # str_nat (nat (- i)) else str_nat (nat i))"

section \<open>Type oids\<close>

text \<open>
  \<^verbatim>\<open>types/oids.py\<close> (the table \<^verbatim>\<open>builtins\<close>) is not among the sources: the oids the
  adapters read from it are fields of a parameter.
\<close>

type_synonym oid = int

record builtins =
  bool_oid :: oid
  int2_oid :: oid
  int4_oid :: oid
  int8_oid :: oid
  oid_oid :: oid
  float4_oid :: oid
  float8_oid :: oid
  numeric_oid :: oid
  text_oid :: oid
  record_oid :: oid

text \<open>The wire formats, \<^verbatim>\<open>pq.Format\<close>.\<close>

datatype format = TEXT | BINARY

text \<open>\<^verbatim>\<open>Format(self.binary)\<close>: the enum member whose value is the bool.\<close>

definition Format :: "bool \<Rightarrow> format" where
  "Format b = (if b then BINARY else TEXT)"

section \<open>types/numeric.py: integers\<close>

definition dump_binary_int :: "builtins \<Rightarrow> int \<Rightarrow> pyexc + bytes \<times> oid" where
  "dump_binary_int B obj =
     (if - 0x8000 \<le> obj \<and> obj \<le> 0x7FFF then
        (case int2_pack obj of Inl e \<Rightarrow> Inl e | Inr b \<Rightarrow> Inr (b, int2_oid B))
      else if - 0x80000000 \<le> obj \<and> obj \<le> 0x7FFFFFFF then
        (case int4_pack obj of Inl e \<Rightarrow> Inl e | Inr b \<Rightarrow> Inr (b, int4_oid B))
      else
        (case int8_pack obj of Inl e \<Rightarrow> Inl e | Inr b \<Rightarrow> Inr (b, int8_oid B)))"

text \<open>The oids of PostgreSQL's \<^verbatim>\<open>pg_type\<close> catalogue, for concrete inputs.\<close>

definition pg_builtins :: builtins where
  "pg_builtins = \<lparr>bool_oid = 16, int2_oid = 21, int4_oid = 23, int8_oid = 20, oid_oid = 26,
     float4_oid = 700, float8_oid = 701, numeric_oid = 1700, text_oid = 25, record_oid = 2249\<rparr>"

subsection \<open>Packing and unpacking\<close>

lemma length_be_enc [simp]: "length (be_enc n x) = n"
  by (induction n arbitrary: x) simp_all

lemma be_dec_snoc: "be_dec (bs @ [c]) = be_dec bs * 256 + of_char c"
  by (simp add: be_dec_def)

lemma be_dec_be_enc: "be_dec (be_enc n x) = x mod 256 ^ n"
proof (induction n arbitrary: x)
  case 0
  show ?case by (simp add: be_dec_def)
next
  case (Suc n)
  have "be_dec (be_enc (Suc n) x) = (x div 256) mod 256 ^ n * 256 + x mod 256"
    by (simp add: be_dec_snoc Suc)
  also have "\<dots> = x mod 256 ^ Suc n"
    using zmod_zmult2_eq [of "256 ^ n" x 256] by simp
  finally show ?case .
qed

lemma pow256: "(256::int) ^ n = 2 ^ (8 * n)"
  by (simp add: power_mult)

lemma pow_half: "0 < n \<Longrightarrow> (2::int) ^ (8 * n) = 2 * 2 ^ (8 * n - 1)"
  by (cases n) (simp_all add: power_add)

lemma mod_signed_range:
  fixes x m :: int
  assumes "- m \<le> x" and "x < m"
  shows "x mod (2 * m) = (if 0 \<le> x then x else x + 2 * m)"
proof (cases "0 \<le> x")
  case True
  then show ?thesis using assms by simp
next
  case False
  have "(x + 2 * m) mod (2 * m) = x + 2 * m"
    using assms False by (intro mod_pos_pos_trivial) simp_all
  then show ?thesis using False by simp
qed

lemma unpack_pack_signed:
  assumes "0 < n" and "pack_signed n x = Inr b"
  shows "unpack_signed n b = Inr x"
proof -
  define m :: int where "m = 2 ^ (8 * n - 1)"
  have r: "- m \<le> x" "x < m" and b: "b = be_enc n x"
    using assms(2) by (auto simp: pack_signed_def m_def split: if_splits)
  have p: "(256::int) ^ n = 2 * m"
    using assms(1) by (simp add: pow256 pow_half m_def)
  have p': "(2::int) ^ (8 * n) = 2 * m"
    using assms(1) by (simp add: pow_half m_def)
  have d: "be_dec b = (if 0 \<le> x then x else x + 2 * m)"
    by (simp only: b be_dec_be_enc p mod_signed_range [OF r])
  have t: "(2::int) ^ (8 * n - Suc 0) = m" by (simp add: m_def)
  show ?thesis
    using r d by (simp add: unpack_signed_def b p' t Let_def)
qed

lemma dump_binary_int_in_range:
  assumes "- (2 ^ 63) \<le> obj" and "obj \<le> 2 ^ 63 - 1"
  shows "dump_binary_int B obj =
     (if - 32768 \<le> obj \<and> obj \<le> 32767 then Inr (be_enc 2 obj, int2_oid B)
      else if - 2147483648 \<le> obj \<and> obj \<le> 2147483647 then Inr (be_enc 4 obj, int4_oid B)
      else Inr (be_enc 8 obj, int8_oid B))"
  using assms
  by (simp add: dump_binary_int_def int2_pack_def int4_pack_def int8_pack_def pack_signed_def)

subsection \<open>The binary integer dumper chooses the narrowest type\<close>

text \<open>
  Claim C6, as stated for every Python int, fails outside the 64-bit range: there
  \<^verbatim>\<open>_int8_struct.pack\<close> raises \<^verbatim>\<open>struct.error\<close> and no oid is returned (the source carries
  a TODO for that case).
\<close>

theorem dump_binary_int_int8_overflow:
  "dump_binary_int pg_builtins (2 ^ 63) = Inl StructError
   \<and> \<not> (\<exists>b. dump_binary_int pg_builtins (2 ^ 63) = Inr (b, int8_oid pg_builtins))"
  by (simp add: dump_binary_int_def int2_pack_def int4_pack_def int8_pack_def pack_signed_def)

text \<open>
  Claim C6, amended: for every int \<open>obj\<close> that fits in 64 bits, \<^verbatim>\<open>dump_binary_int\<close> returns
  the big-endian two's complement encoding of \<open>obj\<close> with the int2 oid on 2 bytes exactly
  when \<open>-32768 \<le> obj \<le> 32767\<close>, with the int4 oid on 4 bytes exactly when \<open>obj\<close> is outside
  that range and \<open>-2147483648 \<le> obj \<le> 2147483647\<close>, and with the int8 oid on 8 bytes
  otherwise.
\<close>

theorem dump_binary_int_narrowest:
  assumes "- (2 ^ 63) \<le> obj" and "obj \<le> 2 ^ 63 - 1"
  shows "\<exists>b t. dump_binary_int B obj = Inr (b, t) \<and> b = be_enc (length b) obj \<and>
     ((length b = 2 \<and> t = int2_oid B) = (- 32768 \<le> obj \<and> obj \<le> 32767)) \<and>
     ((length b = 4 \<and> t = int4_oid B) =
        (\<not> (- 32768 \<le> obj \<and> obj \<le> 32767) \<and> - 2147483648 \<le> obj \<and> obj \<le> 2147483647)) \<and>
     ((length b = 8 \<and> t = int8_oid B) = (\<not> (- 2147483648 \<le> obj \<and> obj \<le> 2147483647)))"
  using dump_binary_int_in_range [OF assms, of B] by auto

theorem dump_binary_int_narrowest_witness:
  "- (2 ^ 63) \<le> (- 32769 :: int) \<and> (- 32769 :: int) \<le> 2 ^ 63 - 1 \<and>
   (\<exists>b. dump_binary_int pg_builtins (- 32769) = Inr (b, int4_oid pg_builtins) \<and> length b = 4) \<and>
   (\<exists>b. dump_binary_int pg_builtins (- 32768) = Inr (b, int2_oid pg_builtins) \<and> length b = 2) \<and>
   (\<exists>b. dump_binary_int pg_builtins (2 ^ 31) = Inr (b, int8_oid pg_builtins) \<and> length b = 8)"
proof -
  have a: "\<exists>b. dump_binary_int pg_builtins (- 32769) = Inr (b, int4_oid pg_builtins) \<and> length b = 4"
    using dump_binary_int_narrowest [of "- 32769" pg_builtins] by auto
  have b: "\<exists>b. dump_binary_int pg_builtins (- 32768) = Inr (b, int2_oid pg_builtins) \<and> length b = 2"
    using dump_binary_int_narrowest [of "- 32768" pg_builtins] by auto
  have c: "\<exists>b. dump_binary_int pg_builtins (2 ^ 31) = Inr (b, int8_oid pg_builtins) \<and> length b = 8"
    using dump_binary_int_narrowest [of "2 ^ 31" pg_builtins] by auto
  show ?thesis using a b c by simp
qed

section \<open>types/numeric.py: the adapters and their registration\<close>



text \<open>\<^verbatim>\<open>_encode\<close> and \<^verbatim>\<open>_decode\<close>: the ASCII codec, which refuses a byte above 127.\<close>

definition is_ascii :: "string \<Rightarrow> bool" where
  "is_ascii s = list_all (\<lambda>c. (of_char c :: nat) < 128) s"

definition ascii_encode :: "string \<Rightarrow> pyexc + bytes" where
  "ascii_encode s = (if is_ascii s then Inr s else Inl UnicodeEncodeError)"

definition ascii_decode :: "bytes \<Rightarrow> pyexc + string" where
  "ascii_decode b = (if is_ascii b then Inr b else Inl UnicodeDecodeError)"



subsection \<open>Dumpers\<close>


definition dump_binary_int2 :: "builtins \<Rightarrow> int \<Rightarrow> pyexc + bytes \<times> oid" where
  "dump_binary_int2 B obj =
     (case int2_pack obj of Inl e \<Rightarrow> Inl e | Inr b \<Rightarrow> Inr (b, int2_oid B))"

definition dump_binary_int4 :: "builtins \<Rightarrow> int \<Rightarrow> pyexc + bytes \<times> oid" where
  "dump_binary_int4 B obj =
     (case int4_pack obj of Inl e \<Rightarrow> Inl e | Inr b \<Rightarrow> Inr (b, int4_oid B))"

definition dump_binary_int8 :: "builtins \<Rightarrow> int \<Rightarrow> pyexc + bytes \<times> oid" where
  "dump_binary_int8 B obj =
     (case int8_pack obj of Inl e \<Rightarrow> Inl e | Inr b \<Rightarrow> Inr (b, int8_oid B))"






subsection \<open>Loaders\<close>












subsection \<open>What the decorators register\<close>








subsection \<open>Round trip of the built-in types\<close>





lemma ascii_roundtrip: "ascii_encode s = Inr b \<Longrightarrow> ascii_decode b = Inr s"
  by (auto simp: ascii_encode_def ascii_decode_def split: if_splits)













text \<open>
  A stand-in for the runtime, for concrete inputs: its \<^verbatim>\<open>Decimal\<close> values are the integers,
  written and read in decimal digits, and a float is written as the integer of its bit
  pattern.
\<close>

definition is_digit :: "char \<Rightarrow> bool" where
  "is_digit c = (48 \<le> (of_char c :: nat) \<and> (of_char c :: nat) \<le> 57)"













section \<open>cursor.py\<close>

subsection \<open>Results, exceptions and collaborators\<close>

text \<open>
  \<^verbatim>\<open>pq/enums.py\<close> is not among the sources. \<^verbatim>\<open>ExecStatus\<close> mirrors libpq's
  \<^verbatim>\<open>ExecStatusType\<close>; \<open>all_statuses\<close> lists the members by increasing value.
\<close>

datatype ExecStatus = EMPTY_QUERY | COMMAND_OK | TUPLES_OK | COPY_OUT | COPY_IN
  | BAD_RESPONSE | NONFATAL_ERROR | FATAL_ERROR | COPY_BOTH | SINGLE_TUPLE

definition all_statuses :: "ExecStatus list" where
  "all_statuses = [EMPTY_QUERY, COMMAND_OK, TUPLES_OK, COPY_OUT, COPY_IN,
     BAD_RESPONSE, NONFATAL_ERROR, FATAL_ERROR, COPY_BOTH, SINGLE_TUPLE]"

fun status_name :: "ExecStatus \<Rightarrow> string" where
  "status_name EMPTY_QUERY = ''EMPTY_QUERY''"
| "status_name COMMAND_OK = ''COMMAND_OK''"
| "status_name TUPLES_OK = ''TUPLES_OK''"
| "status_name COPY_OUT = ''COPY_OUT''"
| "status_name COPY_IN = ''COPY_IN''"
| "status_name BAD_RESPONSE = ''BAD_RESPONSE''"
| "status_name NONFATAL_ERROR = ''NONFATAL_ERROR''"
| "status_name FATAL_ERROR = ''FATAL_ERROR''"
| "status_name COPY_BOTH = ''COPY_BOTH''"
| "status_name SINGLE_TUPLE = ''SINGLE_TUPLE''"

text \<open>
  A \<^verbatim>\<open>PGresult\<close> as the cursor reads it: its status, the \<^verbatim>\<open>SQLSTATE\<close> diagnostic field
  (\<^verbatim>\<open>error_field(DiagnosticField.SQLSTATE)\<close>, \<^verbatim>\<open>None\<close> when absent) and the number of tuples.
\<close>

record PGresult =
  status :: ExecStatus
  sqlstate :: "bytes option"
  ntuples :: int

text \<open>
  The exception classes of \<^verbatim>\<open>exceptions.py\<close> (not among the sources) that the cursor names
  or the specification lists, and the exceptions a call can raise: one of these classes
  with its message, an exception of the Python runtime, or a failed \<^verbatim>\<open>assert\<close>.
\<close>

datatype exc_class = InternalError | ProgrammingError | DatabaseError | DataError
  | IntegrityError | UniqueViolation | SerializationFailure | NotSupportedError
  | OperationalError | InterfaceError

datatype exn = PsycopgError exc_class string | PyError pyexc | AssertionError

text \<open>What the cursor asks \<^verbatim>\<open>conn.pgconn\<close> to send.\<close>

datatype packet =
  SendQuery bytes
  | SendQueryParams bytes "bytes option list" "format list" "oid list" format

datatype 'v params = Seq "'v list" | Mapping "(string \<times> 'v) list"

datatype query = QStr string | QBytes bytes

text \<open>The generator \<^verbatim>\<open>conn._exec_gen(pgconn)\<close>: created, not yet run.\<close>

datatype querygen = ExecGen

text \<open>
  The collaborators of the cursor whose code is not among the sources, as parameters:
  the \<^verbatim>\<open>Transformer\<close> (a fresh one, its \<^verbatim>\<open>cast_row\<close> and \<^verbatim>\<open>adapt_sequence\<close>, each
  returning the transformer as the call leaves it), the connection's codec,
  \<^verbatim>\<open>utils.queries.query2pg\<close> and \<^verbatim>\<open>reorder_params\<close>, \<^verbatim>\<open>exceptions.class_for_state\<close> and
  \<^verbatim>\<open>pq.error_message\<close>.
\<close>

record ('v, 't) env =
  new_transformer :: 't
  tx_cast_row :: "'t \<Rightarrow> PGresult \<Rightarrow> int \<Rightarrow> (exn + 'v list) \<times> 't"
  adapt_sequence :: "'t \<Rightarrow> 'v list \<Rightarrow> format list
     \<Rightarrow> (exn + bytes option list \<times> oid list) \<times> 't"
  codec_encode :: "string \<Rightarrow> exn + bytes"
  query2pg :: "bytes \<Rightarrow> 'v params \<Rightarrow> exn + bytes \<times> format list \<times> string list option"
  reorder_params :: "(string \<times> 'v) list \<Rightarrow> string list \<Rightarrow> exn + 'v list"
  class_for_state :: "bytes option \<Rightarrow> exc_class"
  error_message :: "PGresult \<Rightarrow> string"

record 't cursor =
  binary :: bool
  results :: "PGresult list"
  result :: "PGresult option"
  pos :: int
  iresult :: int
  transformer :: 't
  sent :: "packet list"

subsection \<open>BaseCursor\<close>

definition reset :: "('v, 't) env \<Rightarrow> 't cursor \<Rightarrow> 't cursor" where
  "reset E cur = cur\<lparr>results := [], result := None, pos := 0, iresult := 0,
     transformer := new_transformer E\<rparr>"

text \<open>\<^verbatim>\<open>if vars:\<close> the truth value of an optional sequence or mapping.\<close>

fun truthy :: "'v params option \<Rightarrow> bool" where
  "truthy None = False"
| "truthy (Some (Seq xs)) = (xs \<noteq> [])"
| "truthy (Some (Mapping kvs)) = (kvs \<noteq> [])"

definition encode_query :: "('v, 't) env \<Rightarrow> query \<Rightarrow> exn + bytes" where
  "encode_query E q = (case q of QStr s \<Rightarrow> codec_encode E s | QBytes b \<Rightarrow> Inr b)"

text \<open>
  The branch \<^verbatim>\<open>if vars:\<close> of \<^verbatim>\<open>_execute_send\<close>: reorder a mapping, check that a sequence
  is left, adapt it and send the extended query.
\<close>

definition send_with_params ::
  "('v, 't) env \<Rightarrow> 't cursor \<Rightarrow> bytes \<Rightarrow> format list \<Rightarrow> string list option \<Rightarrow> 'v params
     \<Rightarrow> (exn + querygen) \<times> 't cursor" where
  "send_with_params E cur q formats order v =
     (let reordered =
        (case order of
           Some ord \<Rightarrow>
             (case v of
                Mapping kvs \<Rightarrow> reorder_params E kvs ord
              | Seq xs \<Rightarrow> Inl AssertionError)
         | None \<Rightarrow>
             (case v of
                Seq xs \<Rightarrow> Inr xs
              | Mapping kvs \<Rightarrow> Inl AssertionError))
      in case reordered of
        Inl e \<Rightarrow> (Inl e, cur)
      | Inr xs \<Rightarrow>
          (case adapt_sequence E (transformer cur) xs formats of
             (Inl e, tx) \<Rightarrow> (Inl e, cur\<lparr>transformer := tx\<rparr>)
           | (Inr (ps, types), tx) \<Rightarrow>
               (Inr ExecGen,
                cur\<lparr>transformer := tx,
                  sent := sent cur @
                    [SendQueryParams q ps formats types (Format (binary cur))]\<rparr>)))"

definition execute_send ::
  "('v, 't) env \<Rightarrow> 't cursor \<Rightarrow> query \<Rightarrow> 'v params option \<Rightarrow> (exn + querygen) \<times> 't cursor" where
  "execute_send E cur0 qry vars =
     (let cur = reset E cur0 in
      case encode_query E qry of
        Inl e \<Rightarrow> (Inl e, cur)
      | Inr q \<Rightarrow>
          (case vars of
             None \<Rightarrow> (Inr ExecGen, cur\<lparr>sent := sent cur @ [SendQuery q]\<rparr>)
           | Some v \<Rightarrow>
               (case query2pg E q v of
                  Inl e \<Rightarrow> (Inl e, cur)
                | Inr (q', formats, order) \<Rightarrow>
                    if truthy vars then send_with_params E cur q' formats order v
                    else (Inr ExecGen, cur\<lparr>sent := sent cur @ [SendQuery q']\<rparr>))))"

text \<open>\<^verbatim>\<open>', '.join(sorted(s.name for s in sorted(badstats)))\<close>\<close>

fun join :: "string \<Rightarrow> string list \<Rightarrow> string" where
  "join sep [] = []"
| "join sep [x] = x"
| "join sep (x # y # ys) = x @ sep @ join sep (y # ys)"

definition unexpected_names :: "ExecStatus set \<Rightarrow> string" where
  "unexpected_names badstats =
     join '', '' (sort (map status_name (filter (\<lambda>s. s \<in> badstats) all_statuses)))"

definition execute_results ::
  "('v, 't) env \<Rightarrow> 't cursor \<Rightarrow> PGresult list \<Rightarrow> (exn + unit) \<times> 't cursor" where
  "execute_results E cur rs =
     (if rs = [] then
        (Inl (PsycopgError InternalError ''got no result from the query''), cur)
      else
        let badstats = set (map status rs) - {TUPLES_OK, COMMAND_OK, EMPTY_QUERY} in
        if badstats = {} then
          (Inr (), cur\<lparr>results := rs, result := Some (hd rs)\<rparr>)
        else if status (last rs) = FATAL_ERROR then
          (Inl (PsycopgError (class_for_state E (sqlstate (last rs)))
                  (error_message E (last rs))), cur)
        else if badstats \<inter> {COPY_IN, COPY_OUT, COPY_BOTH} \<noteq> {} then
          (Inl (PsycopgError ProgrammingError
                  ''COPY cannot be used with execute(); use copy() insead''), cur)
        else
          (Inl (PsycopgError InternalError
                  (''got unexpected status from query: '' @ unexpected_names badstats)), cur))"

definition nextset :: "'t cursor \<Rightarrow> bool option \<times> 't cursor" where
  "nextset cur0 =
     (let cur = cur0\<lparr>iresult := iresult cur0 + 1\<rparr> in
      if iresult cur < int (length (results cur)) then
        (Some True, cur\<lparr>result := Some (results cur ! nat (iresult cur)), pos := 0\<rparr>)
      else (None, cur))"

text \<open>\<^verbatim>\<open>BaseCursor._cast_row\<close>\<close>

definition cursor_cast_row ::
  "('v, 't) env \<Rightarrow> 't cursor \<Rightarrow> int \<Rightarrow> (exn + 'v list option) \<times> 't cursor" where
  "cursor_cast_row E cur n =
     (case result cur of
        None \<Rightarrow> (Inr None, cur)
      | Some res \<Rightarrow>
          if ntuples res \<le> n then (Inr None, cur)
          else
            (case tx_cast_row E (transformer cur) res n of
               (Inl e, tx) \<Rightarrow> (Inl e, cur\<lparr>transformer := tx\<rparr>)
             | (Inr row, tx) \<Rightarrow> (Inr (Some row), cur\<lparr>transformer := tx\<rparr>)))"

definition fetchone :: "('v, 't) env \<Rightarrow> 't cursor \<Rightarrow> (exn + 'v list option) \<times> 't cursor" where
  "fetchone E cur =
     (case cursor_cast_row E cur (pos cur) of
        (Inl e, cur') \<Rightarrow> (Inl e, cur')
      | (Inr None, cur') \<Rightarrow> (Inr None, cur')
      | (Inr (Some rv), cur') \<Rightarrow> (Inr (Some rv), cur'\<lparr>pos := pos cur' + 1\<rparr>))"

text \<open>
  \<^verbatim>\<open>Cursor.execute\<close>: \<open>answer\<close> is what \<^verbatim>\<open>conn.wait(gen)\<close> returns or raises once the
  generator has run.
\<close>

definition execute ::
  "('v, 't) env \<Rightarrow> 't cursor \<Rightarrow> query \<Rightarrow> 'v params option \<Rightarrow> exn + PGresult list
     \<Rightarrow> (exn + unit) \<times> 't cursor" where
  "execute E cur qry vars answer =
     (case execute_send E cur qry vars of
        (Inl e, cur1) \<Rightarrow> (Inl e, cur1)
      | (Inr gen, cur1) \<Rightarrow>
          (case answer of
             Inl e \<Rightarrow> (Inl e, cur1)
           | Inr rs \<Rightarrow> execute_results E cur1 rs))"

subsection \<open>Inputs for concrete runs\<close>

text \<open>
  Modelled from the spec: \<^verbatim>\<open>utils/queries.py\<close> (\<^verbatim>\<open>query2pg\<close>) is not among the sources. The
  positional style of the Query Preparer: each \<^verbatim>\<open>%s\<close> becomes the next of \<^verbatim>\<open>$1..$N\<close>, the
  literal \<^verbatim>\<open>%%\<close> reduces to \<^verbatim>\<open>%\<close>, there is one wire format per placeholder and no
  reorder permutation.
\<close>

fun rewrite_placeholders :: "nat \<Rightarrow> bytes \<Rightarrow> bytes" where
  "rewrite_placeholders k (a # b # r) =
     (if a = CHR ''%'' \<and> b = CHR ''%'' then CHR ''%'' # rewrite_placeholders k r
      else if a = CHR ''%'' \<and> b = CHR ''s'' then
        CHR ''$'' # str_nat (Suc k) @ rewrite_placeholders (Suc k) r
      else a # rewrite_placeholders k (b # r))"
| "rewrite_placeholders k r = r"

fun count_placeholders :: "bytes \<Rightarrow> nat" where
  "count_placeholders (a # b # r) =
     (if a = CHR ''%'' \<and> b = CHR ''%'' then count_placeholders r
      else if a = CHR ''%'' \<and> b = CHR ''s'' then Suc (count_placeholders r)
      else count_placeholders (b # r))"
| "count_placeholders r = 0"

definition query2pg_positional ::
  "bytes \<Rightarrow> 'v params \<Rightarrow> exn + bytes \<times> format list \<times> string list option" where
  "query2pg_positional q v =
     Inr (rewrite_placeholders 0 q, replicate (count_placeholders q) TEXT, None)"

text \<open>
  Modelled from the spec: \<^verbatim>\<open>exceptions.py\<close> (\<^verbatim>\<open>class_for_state\<close>) is not among the sources.
  The code-to-class mapping with the two entries the specification gives and its fallback.
\<close>

definition sqlstate_class :: "bytes option \<Rightarrow> exc_class" where
  "sqlstate_class code =
     (if code = Some ''23505'' then UniqueViolation
      else if code = Some ''40001'' then SerializationFailure
      else DatabaseError)"

text \<open>
  A stand-in for the collaborators: parameters are byte strings sent as text, the row
  at index 1 of every result cannot be decoded, every other row decodes to one column.
\<close>

definition test_env :: "(bytes, unit) env" where
  "test_env = \<lparr>
     new_transformer = (),
     tx_cast_row = (\<lambda>tx res n.
        (if n = 1 then Inl (PsycopgError DataError ''cannot decode'') else Inr [str_int n], tx)),
     adapt_sequence = (\<lambda>tx xs fs. (Inr (map Some xs, map (\<lambda>x. text_oid pg_builtins) xs), tx)),
     codec_encode = Inr,
     query2pg = query2pg_positional,
     reorder_params = (\<lambda>kvs ord. Inr (map snd kvs)),
     class_for_state = sqlstate_class,
     error_message = (\<lambda>r. ''error'')\<rparr>"

text \<open>\<^verbatim>\<open>BaseCursor.__init__\<close>\<close>

definition init_cursor :: "('v, 't) env \<Rightarrow> bool \<Rightarrow> 't cursor" where
  "init_cursor E b = reset E \<lparr>binary = b, results = [], result = None, pos = 0, iresult = 0,
     transformer = new_transformer E, sent = []\<rparr>"

definition tuples_result :: "int \<Rightarrow> PGresult" where
  "tuples_result n = \<lparr>status = TUPLES_OK, sqlstate = None, ntuples = n\<rparr>"

definition copy_result :: PGresult where
  "copy_result = \<lparr>status = COPY_IN, sqlstate = None, ntuples = 0\<rparr>"

definition error_result :: "bytes \<Rightarrow> PGresult" where
  "error_result code = \<lparr>status = FATAL_ERROR, sqlstate = Some code, ntuples = 0\<rparr>"

subsection \<open>Results of a query\<close>

lemma execute_results_fatal:
  assumes "rs \<noteq> []" and "status (last rs) = FATAL_ERROR"
  shows "execute_results E cur rs =
     (Inl (PsycopgError (class_for_state E (sqlstate (last rs))) (error_message E (last rs))), cur)"
proof -
  have "FATAL_ERROR \<in> set (map status rs)"
    using assms by (metis last_in_set last_map map_is_Nil_conv)
  then have "set (map status rs) - {TUPLES_OK, COMMAND_OK, EMPTY_QUERY} \<noteq> {}"
    by auto
  then show ?thesis
    using assms by (simp add: execute_results_def Let_def)
qed

lemma execute_results_copy:
  assumes "\<exists>r \<in> set rs. status r = COPY_IN \<or> status r = COPY_OUT \<or> status r = COPY_BOTH"
    and "status (last rs) \<noteq> FATAL_ERROR"
  shows "execute_results E cur rs =
     (Inl (PsycopgError ProgrammingError
        ''COPY cannot be used with execute(); use copy() insead''), cur)"
proof -
  obtain r where r: "r \<in> set rs"
      "status r = COPY_IN \<or> status r = COPY_OUT \<or> status r = COPY_BOTH"
    using assms(1) by blast
  then have ne: "rs \<noteq> []" by auto
  have i: "(set (map status rs) - {TUPLES_OK, COMMAND_OK, EMPTY_QUERY})
      \<inter> {COPY_IN, COPY_OUT, COPY_BOTH} \<noteq> {}"
    using r by force
  then have b: "set (map status rs) - {TUPLES_OK, COMMAND_OK, EMPTY_QUERY} \<noteq> {}"
    by blast
  show ?thesis
    using ne i b assms(2) by (simp add: execute_results_def Let_def)
qed

lemma results_execute_send: "results (snd (execute_send E cur q vars)) = []"
  by (auto simp: execute_send_def send_with_params_def reset_def Let_def
      split: sum.splits option.splits params.splits prod.splits)

lemma result_execute_send: "result (snd (execute_send E cur q vars)) = None"
  by (auto simp: execute_send_def send_with_params_def reset_def Let_def
      split: sum.splits option.splits params.splits prod.splits)

text \<open>
  Claim C4: for every non-empty list of results whose last result has status
  \<^verbatim>\<open>FATAL_ERROR\<close>, \<^verbatim>\<open>_execute_results\<close> raises the exception whose class
  \<^verbatim>\<open>class_for_state\<close> selects from the \<^verbatim>\<open>SQLSTATE\<close> field of that last result, with the
  message of that result, and leaves the cursor as it was. Nothing is assumed of the
  other results: the branch is taken before the COPY statuses are looked at. The mapping
  itself is a parameter; with the entries the specification gives, \<^verbatim>\<open>23505\<close> selects
  \<open>UniqueViolation\<close>, \<^verbatim>\<open>40001\<close> \<open>SerializationFailure\<close> and any other code \<open>DatabaseError\<close>.
\<close>

theorem execute_results_fatal_error_class:
  assumes "rs \<noteq> []" and "status (last rs) = FATAL_ERROR"
  shows "execute_results E cur rs =
     (Inl (PsycopgError (class_for_state E (sqlstate (last rs))) (error_message E (last rs))),
      cur)"
  using assms by (rule execute_results_fatal)

theorem execute_results_fatal_error_class_witness:
  "[copy_result, error_result ''23505''] \<noteq> []
   \<and> status (last [copy_result, error_result ''23505'']) = FATAL_ERROR
   \<and> execute_results test_env (init_cursor test_env False) [copy_result, error_result ''23505'']
       = (Inl (PsycopgError UniqueViolation ''error''), init_cursor test_env False)
   \<and> execute_results test_env (init_cursor test_env False) [error_result ''40001'']
       = (Inl (PsycopgError SerializationFailure ''error''), init_cursor test_env False)
   \<and> execute_results test_env (init_cursor test_env False) [error_result ''22012'']
       = (Inl (PsycopgError DatabaseError ''error''), init_cursor test_env False)"
  using execute_results_fatal_error_class
      [of "[copy_result, error_result ''23505'']" test_env "init_cursor test_env False"]
    execute_results_fatal_error_class
      [of "[error_result ''40001'']" test_env "init_cursor test_env False"]
    execute_results_fatal_error_class
      [of "[error_result ''22012'']" test_env "init_cursor test_env False"]
  by (simp add: error_result_def copy_result_def test_env_def sqlstate_class_def)

text \<open>
  Claim C5: for every list of results that holds a result with status \<^verbatim>\<open>COPY_IN\<close>,
  \<^verbatim>\<open>COPY_OUT\<close> or \<^verbatim>\<open>COPY_BOTH\<close> and whose last result is not a \<^verbatim>\<open>FATAL_ERROR\<close>,
  \<^verbatim>\<open>_execute_results\<close> raises \<open>ProgrammingError\<close> with a message that mentions
  \<^verbatim>\<open>copy()\<close> and leaves the cursor as it was; \<^verbatim>\<open>execute\<close>, which resets the cursor before
  it sends the query, raises the same error once the query is sent and ends with no
  stored results and no current result.
\<close>

theorem execute_results_copy_status:
  assumes "\<exists>r \<in> set rs. status r = COPY_IN \<or> status r = COPY_OUT \<or> status r = COPY_BOTH"
    and "status (last rs) \<noteq> FATAL_ERROR"
  shows "\<exists>msg pre post.
       execute_results E cur rs = (Inl (PsycopgError ProgrammingError msg), cur)
     \<and> msg = ''COPY cannot be used with execute(); use copy() insead''
     \<and> msg = pre @ ''copy()'' @ post
     \<and> execute E cur qry vars (Inr rs) =
         (case execute_send E cur qry vars of
            (Inl e, cur1) \<Rightarrow> (Inl e, cur1)
          | (Inr g, cur1) \<Rightarrow> (Inl (PsycopgError ProgrammingError msg), cur1))
     \<and> results (snd (execute E cur qry vars (Inr rs))) = []
     \<and> result (snd (execute E cur qry vars (Inr rs))) = None"
proof -
  let ?msg = "''COPY cannot be used with execute(); use copy() insead''"
  have a: "execute_results E c rs = (Inl (PsycopgError ProgrammingError ?msg), c)" for c
    by (rule execute_results_copy [OF assms])
  have m: "?msg = ''COPY cannot be used with execute(); use '' @ ''copy()'' @ '' insead''"
    by simp
  have x: "execute E cur qry vars (Inr rs) =
         (case execute_send E cur qry vars of
            (Inl e, cur1) \<Rightarrow> (Inl e, cur1)
          | (Inr g, cur1) \<Rightarrow> (Inl (PsycopgError ProgrammingError ?msg), cur1))"
    by (simp add: execute_def a split: prod.splits sum.splits)
  have b: "results (snd (execute E cur qry vars (Inr rs))) = []"
    using results_execute_send [of E cur qry vars]
    by (cases "execute_send E cur qry vars") (auto simp: x split: sum.splits)
  have c: "result (snd (execute E cur qry vars (Inr rs))) = None"
    using result_execute_send [of E cur qry vars]
    by (cases "execute_send E cur qry vars") (auto simp: x split: sum.splits)
  show ?thesis using a m x b c by blast
qed

theorem execute_results_copy_status_witness:
  "(\<exists>r \<in> set [tuples_result 1, copy_result].
       status r = COPY_IN \<or> status r = COPY_OUT \<or> status r = COPY_BOTH)
   \<and> status (last [tuples_result 1, copy_result]) \<noteq> FATAL_ERROR
   \<and> fst (execute test_env (init_cursor test_env False) (QStr ''copy t from stdin'') None
        (Inr [tuples_result 1, copy_result]))
       = Inl (PsycopgError ProgrammingError
           ''COPY cannot be used with execute(); use copy() insead'')
   \<and> results (snd (execute test_env (init_cursor test_env False) (QStr ''copy t from stdin'') None
        (Inr [tuples_result 1, copy_result]))) = []"
proof -
  have h1: "\<exists>r \<in> set [tuples_result 1, copy_result].
       status r = COPY_IN \<or> status r = COPY_OUT \<or> status r = COPY_BOTH"
    by (simp add: copy_result_def)
  have h2: "status (last [tuples_result 1, copy_result]) \<noteq> FATAL_ERROR"
    by (simp add: copy_result_def)
  have s: "fst (execute_send test_env (init_cursor test_env False)
      (QStr ''copy t from stdin'') None) = Inr ExecGen"
    by (simp add: execute_send_def encode_query_def test_env_def Let_def)
  show ?thesis
    using execute_results_copy_status [OF h1 h2, of test_env "init_cursor test_env False"
        "QStr ''copy t from stdin''" None] h1 h2 s
    by (cases "execute_send test_env (init_cursor test_env False)
      (QStr ''copy t from stdin'') None") auto
qed

subsection \<open>Fetching rows\<close>

text \<open>A cursor on the only result of a query, \<open>n\<close> tuples, at position \<open>p\<close>.\<close>

definition fetching_cursor :: "int \<Rightarrow> int \<Rightarrow> unit cursor" where
  "fetching_cursor n p = (init_cursor test_env False)
     \<lparr>results := [tuples_result n], result := Some (tuples_result n), pos := p\<rparr>"

text \<open>
  Claim C7: when the transformer raises while decoding the row at the current position,
  \<^verbatim>\<open>fetchone\<close> raises that error and the position is the one before the call; for every
  cursor, the position after \<^verbatim>\<open>fetchone\<close> is one more than before when a row is returned
  and the same otherwise.
\<close>

theorem fetchone_decode_error_keeps_position:
  assumes "result cur = Some res" and "pos cur < ntuples res"
    and "tx_cast_row E (transformer cur) res (pos cur) = (Inl e, tx)"
  shows "fetchone E cur = (Inl e, cur\<lparr>transformer := tx\<rparr>)
     \<and> pos (snd (fetchone E cur)) = pos cur
     \<and> (\<forall>E' :: ('v, 't) env. \<forall>cur'. pos (snd (fetchone E' cur')) =
          (case fst (fetchone E' cur') of Inr (Some rv) \<Rightarrow> pos cur' + 1 | _ \<Rightarrow> pos cur'))"
proof -
  have a: "fetchone E cur = (Inl e, cur\<lparr>transformer := tx\<rparr>)"
    using assms by (simp add: fetchone_def cursor_cast_row_def)
  have b: "pos (snd (fetchone E' cur')) =
          (case fst (fetchone E' cur') of Inr (Some rv) \<Rightarrow> pos cur' + 1 | _ \<Rightarrow> pos cur')"
    for E' :: "('v, 't) env" and cur'
    by (auto simp: fetchone_def cursor_cast_row_def split: option.splits sum.splits prod.splits)
  show ?thesis using a b by simp
qed

theorem fetchone_decode_error_keeps_position_witness:
  "result (fetching_cursor 3 1) = Some (tuples_result 3)
   \<and> pos (fetching_cursor 3 1) < ntuples (tuples_result 3)
   \<and> tx_cast_row test_env (transformer (fetching_cursor 3 1)) (tuples_result 3)
        (pos (fetching_cursor 3 1)) = (Inl (PsycopgError DataError ''cannot decode''), ())
   \<and> fst (fetchone test_env (fetching_cursor 3 1)) = Inl (PsycopgError DataError ''cannot decode'')
   \<and> pos (snd (fetchone test_env (fetching_cursor 3 1))) = 1
   \<and> fst (fetchone test_env (fetching_cursor 3 0)) = Inr (Some [''0''])
   \<and> pos (snd (fetchone test_env (fetching_cursor 3 0))) = 1"
proof -
  have h1: "result (fetching_cursor 3 1) = Some (tuples_result 3)"
    by (simp add: fetching_cursor_def)
  have h2: "pos (fetching_cursor 3 1) < ntuples (tuples_result 3)"
    by (simp add: fetching_cursor_def tuples_result_def)
  have h3: "tx_cast_row test_env (transformer (fetching_cursor 3 1)) (tuples_result 3)
        (pos (fetching_cursor 3 1)) = (Inl (PsycopgError DataError ''cannot decode''), ())"
    by (simp add: fetching_cursor_def test_env_def)
  have z: "str_int 0 = ''0''"
    by code_simp
  have ok: "fetchone test_env (fetching_cursor 3 0)
      = (Inr (Some [''0'']), (fetching_cursor 3 0)\<lparr>pos := 1\<rparr>)"
    by (simp add: fetchone_def cursor_cast_row_def fetching_cursor_def test_env_def
        tuples_result_def init_cursor_def reset_def z)
  note t = fetchone_decode_error_keeps_position [OF h1 h2 h3]
  have t1: "fst (fetchone test_env (fetching_cursor 3 1))
      = Inl (PsycopgError DataError ''cannot decode'')"
    using t [THEN conjunct1] by simp
  have t2: "pos (snd (fetchone test_env (fetching_cursor 3 1))) = 1"
    using t [THEN conjunct2, THEN conjunct1] by (simp add: fetching_cursor_def)
  show ?thesis
    using h1 h2 h3 t1 t2 ok by simp
qed

text \<open>
  Claim C9: on a cursor with no current result, and on a cursor whose position is at or
  past the number of tuples of the current result, \<^verbatim>\<open>fetchone\<close> returns \<^verbatim>\<open>None\<close>, raises
  nothing and leaves the cursor, its position included, as it was, whatever the
  transformer would do with the row: no row is asked of it.
\<close>

theorem fetchone_without_row:
  assumes "result cur = None \<or> (\<exists>res. result cur = Some res \<and> ntuples res \<le> pos cur)"
  shows "fetchone E cur = (Inr None, cur)"
  using assms by (auto simp: fetchone_def cursor_cast_row_def)

theorem fetchone_without_row_witness:
  "fetchone test_env (init_cursor test_env False) = (Inr None, init_cursor test_env False)
   \<and> fetchone test_env (fetching_cursor 3 3) = (Inr None, fetching_cursor 3 3)
   \<and> fetchone test_env (fetching_cursor 0 0) = (Inr None, fetching_cursor 0 0)
   \<and> fetchone test_env (fetching_cursor 3 7) = (Inr None, fetching_cursor 3 7)"
proof -
  have a: "result (init_cursor test_env False) = None"
    by (simp add: init_cursor_def reset_def)
  have b: "\<exists>res. result (fetching_cursor n p) = Some res \<and> ntuples res \<le> pos (fetching_cursor n p)"
    if "n \<le> p" for n p
    using that by (simp add: fetching_cursor_def tuples_result_def)
  show ?thesis
    using fetchone_without_row [of "init_cursor test_env False" test_env]
      fetchone_without_row [of "fetching_cursor 3 3" test_env]
      fetchone_without_row [of "fetching_cursor 0 0" test_env]
      fetchone_without_row [of "fetching_cursor 3 7" test_env]
      a b [of 3 3] b [of 0 0] b [of 3 7]
    by simp
qed

subsection \<open>Sending a query\<close>

text \<open>
  Claim C8: when \<^verbatim>\<open>_execute_send\<close> returns, the query it sent is the caller's, encoded and
  otherwise untouched, when \<^verbatim>\<open>vars\<close> is \<^verbatim>\<open>None\<close>, and the query rewritten by the preparer
  when a parameter vector is supplied, an empty one included; the packet is the
  extended-query one exactly when the parameter vector is not empty and the simple-query
  one otherwise. With the preparer of the specification, \<^verbatim>\<open>%%\<close> is sent as \<^verbatim>\<open>%\<close> in the
  second case only.
\<close>

theorem execute_send_packet:
  assumes "execute_send E cur qry vars = (Inr g, cur')"
  shows "\<exists>q. encode_query E qry = Inr q \<and>
     (case vars of
        None \<Rightarrow> sent cur' = sent cur @ [SendQuery q]
      | Some v \<Rightarrow>
          (\<exists>q' formats order. query2pg E q v = Inr (q', formats, order) \<and>
             (if truthy vars then
                (\<exists>ps types. sent cur' =
                   sent cur @ [SendQueryParams q' ps formats types (Format (binary cur))])
              else sent cur' = sent cur @ [SendQuery q'])))"
proof -
  obtain q where q: "encode_query E qry = Inr q"
    using assms by (cases "encode_query E qry") (auto simp: execute_send_def Let_def)
  show ?thesis
  proof (cases vars)
    case None
    then show ?thesis
      using assms q by (auto simp: execute_send_def Let_def reset_def)
  next
    case (Some v)
    obtain q' formats order where p: "query2pg E q v = Inr (q', formats, order)"
      using assms q Some
      by (cases "query2pg E q v") (auto simp: execute_send_def Let_def)
    show ?thesis
    proof (cases "truthy vars")
      case False
      then show ?thesis
        using assms q Some p by (auto simp: execute_send_def Let_def reset_def)
    next
      case True
      then have "send_with_params E (reset E cur) q' formats order v = (Inr g, cur')"
        using assms q Some p by (simp add: execute_send_def Let_def)
      then have "\<exists>ps types. sent cur' =
          sent cur @ [SendQueryParams q' ps formats types (Format (binary cur))]"
        by (auto simp: send_with_params_def Let_def reset_def
            split: sum.splits option.splits params.splits prod.splits)
      then show ?thesis
        using q Some p True by simp
    qed
  qed
qed

theorem execute_send_packet_witness:
  "execute_send test_env (init_cursor test_env True) (QStr ''select 10 %% 3'') None
     = (Inr ExecGen, (init_cursor test_env True)\<lparr>sent := [SendQuery ''select 10 %% 3'']\<rparr>)
   \<and> execute_send test_env (init_cursor test_env True) (QStr ''select 10 %% 3'') (Some (Seq []))
     = (Inr ExecGen, (init_cursor test_env True)\<lparr>sent := [SendQuery ''select 10 % 3'']\<rparr>)
   \<and> execute_send test_env (init_cursor test_env True) (QStr ''select %s, 10 %% 3'')
        (Some (Seq [''hi'']))
     = (Inr ExecGen, (init_cursor test_env True)\<lparr>sent :=
          [SendQueryParams ''select $1, 10 % 3'' [Some ''hi''] [TEXT] [25] BINARY]\<rparr>)"
proof -
  let ?c = "init_cursor test_env True"
  have c: "reset test_env ?c = ?c" "sent ?c = []" "binary ?c = True"
    by (simp_all add: init_cursor_def reset_def)
  have e: "encode_query test_env (QStr s) = Inr s" for s
    by (simp add: encode_query_def test_env_def)
  have p: "query2pg test_env = query2pg_positional"
    by (simp add: test_env_def)
  have ad: "adapt_sequence test_env tx xs fs = (Inr (map Some xs, map (\<lambda>x. 25) xs), tx)"
    for tx xs fs
    by (simp add: test_env_def pg_builtins_def)
  have a1: "execute_send test_env ?c (QStr ''select 10 %% 3'') None
     = (Inr ExecGen, ?c\<lparr>sent := [SendQuery ''select 10 %% 3'']\<rparr>)"
    by (simp add: execute_send_def Let_def c e)
  have a2: "execute_send test_env ?c (QStr ''select 10 %% 3'') (Some (Seq []))
     = (Inr ExecGen, ?c\<lparr>sent := [SendQuery ''select 10 % 3'']\<rparr>)"
    by (simp add: execute_send_def Let_def c e p query2pg_positional_def)
  have a3: "execute_send test_env ?c (QStr ''select %s, 10 %% 3'') (Some (Seq [''hi'']))
     = (Inr ExecGen, ?c\<lparr>sent :=
          [SendQueryParams ''select $1, 10 % 3'' [Some ''hi''] [TEXT] [25] BINARY]\<rparr>)"
    by (simp add: execute_send_def send_with_params_def Let_def c e p query2pg_positional_def
        str_nat.simps digit_char_def ad Format_def)
  from execute_send_packet [OF a1] execute_send_packet [OF a2] execute_send_packet [OF a3]
  have "sent (?c\<lparr>sent := [SendQuery ''select 10 %% 3'']\<rparr>) = sent ?c @ [SendQuery ''select 10 %% 3'']"
    by (simp add: e)
  with a1 a2 a3 show ?thesis by simp
qed

section \<open>types/composite.py\<close>

subsection \<open>The transformer of a composite adapter\<close>

text \<open>
  \<^verbatim>\<open>adapt.py\<close> is not among the sources. What \<^verbatim>\<open>Transformer.dump\<close> returns for a field is
  \<^verbatim>\<open>MaybeOid\<close> of \<^verbatim>\<open>proto.py\<close>: the payload alone or a pair of payload and oid, the payload
  being \<^verbatim>\<open>None\<close> for NULL. An item of a tuple is \<^verbatim>\<open>None\<close> or a value. The transformer's \<^verbatim>\<open>dump\<close> and the load function it finds
  for an oid and a format are parameters; \<^verbatim>\<open>load_sequence\<close> is modelled from the spec:
  each column's bytes go to the loader of the column's type, NULL stays \<^verbatim>\<open>None\<close>.
\<close>

datatype maybe_oid = Plain "bytes option" | WithOid "bytes option" oid

record ('v, 'w) transformer =
  tx_dump :: "'v option \<Rightarrow> format \<Rightarrow> exn + maybe_oid"
  get_load_function :: "oid \<Rightarrow> format \<Rightarrow> bytes \<Rightarrow> exn + 'w"

text \<open>Running a call that can raise over a sequence, left to right.\<close>

fun sequence :: "('a \<Rightarrow> exn + 'b) \<Rightarrow> 'a list \<Rightarrow> exn + 'b list" where
  "sequence f [] = Inr []"
| "sequence f (x # xs) =
     (case f x of
        Inl e \<Rightarrow> Inl e
      | Inr y \<Rightarrow> (case sequence f xs of Inl e \<Rightarrow> Inl e | Inr ys \<Rightarrow> Inr (y # ys)))"

subsection \<open>TextTupleDumper\<close>

text \<open>
  \<^verbatim>\<open>_re_needs_quotes\<close>, searched in the payload: the empty string, or a double quote, a
  comma, a backslash or a white space character anywhere (\<^verbatim>\<open>\s\<close> of a bytes pattern:
  space, tab, line feed, vertical tab, form feed or carriage return).
\<close>

definition dquote :: char where "dquote = CHR 0x22"
definition backslash :: char where "backslash = CHR 0x5C"

definition is_space :: "char \<Rightarrow> bool" where
  "is_space c = (c = CHR '' '' \<or> c = CHR 0x09 \<or> c = CHR 0x0A \<or> c = CHR 0x0B
     \<or> c = CHR 0x0C \<or> c = CHR 0x0D)"

definition needs_quotes :: "bytes \<Rightarrow> bool" where
  "needs_quotes ad =
     (ad = [] \<or> list_ex (\<lambda>c. c = dquote \<or> c = CHR '','' \<or> c = backslash \<or> is_space c) ad)"

text \<open>\<^verbatim>\<open>_re_escape.sub(br"\1\1", ad)\<close>: every double quote is written twice.\<close>

fun re_escape :: "bytes \<Rightarrow> bytes" where
  "re_escape [] = []"
| "re_escape (c # cs) = (if c = dquote then [c, c] else [c]) @ re_escape cs"

text \<open>What the loop of \<^verbatim>\<open>TextTupleDumper.dump\<close> appends to \<^verbatim>\<open>parts\<close> for one item.\<close>

definition text_parts :: "('v, 'w) transformer \<Rightarrow> 'v option \<Rightarrow> exn + bytes list" where
  "text_parts tx item =
     (case item of
        None \<Rightarrow> Inr ['','']
      | Some v \<Rightarrow>
          (case tx_dump tx item TEXT of
             Inl e \<Rightarrow> Inl e
           | Inr r \<Rightarrow>
               (case (case r of WithOid a t \<Rightarrow> a | Plain a \<Rightarrow> a) of
                  None \<Rightarrow> Inr ['','']
                | Some ad \<Rightarrow>
                    Inr [if needs_quotes ad then [dquote] @ re_escape ad @ [dquote] else ad,
                         '',''])))"

definition text_tuple_dump ::
  "('v, 'w) transformer \<Rightarrow> oid \<Rightarrow> 'v option list \<Rightarrow> exn + bytes \<times> oid" where
  "text_tuple_dump tx self_oid obj =
     (if obj = [] then Inr (''()'', self_oid)
      else
        (case sequence (text_parts tx) obj of
           Inl e \<Rightarrow> Inl e
         | Inr pss \<Rightarrow>
             (let parts = [''(''] @ concat pss;
                  parts = parts[length parts - 1 := '')'']
              in Inr (concat parts, self_oid))))"

subsection \<open>RecordLoader\<close>

text \<open>
  \<^verbatim>\<open>_re_undouble.sub(br"\1", s)\<close>: from left to right, a double quote or a backslash
  followed by the same character is written once.
\<close>

fun re_undouble :: "bytes \<Rightarrow> bytes" where
  "re_undouble (a # b # cs) =
     (if (a = dquote \<or> a = backslash) \<and> b = a then a # re_undouble cs
      else a # re_undouble (b # cs))"
| "re_undouble cs = cs"

text \<open>
  \<^verbatim>\<open>_re_tokenize\<close>. Each of its three alternatives starts with an optional parenthesis,
  taken when there is one and given back if the rest of the alternative fails.
\<close>

definition opt_paren ::
  "(bytes \<Rightarrow> (bytes option \<times> bytes) option) \<Rightarrow> bytes \<Rightarrow> (bytes option \<times> bytes) option" where
  "opt_paren body s =
     (case s of
        [] \<Rightarrow> body s
      | c # r \<Rightarrow>
          if c = CHR ''('' then (case body r of Some m \<Rightarrow> Some m | None \<Rightarrow> body s)
          else body s)"

definition is_delim :: "char \<Rightarrow> bool" where
  "is_delim c = (c = CHR '','' \<or> c = CHR '')'')"

text \<open>First alternative, \<^verbatim>\<open>([,)])\<close>: an empty token, the group 1 is set.\<close>

definition empty_token :: "bytes \<Rightarrow> (bytes option \<times> bytes) option" where
  "empty_token s = (case s of [] \<Rightarrow> None | c # r \<Rightarrow> if is_delim c then Some (None, r) else None)"

text \<open>
  Second alternative, \<^verbatim>\<open>" ((?: [^"] | "")*) " [,)]\<close>. \<open>quoted_body\<close> is the greedy
  repetition: it stops at a double quote that no double quote follows, and returns the
  group 2 and what follows that quote. Giving an iteration back cannot make the
  alternative match: before a character that is not a double quote the closing quote
  fails, and before a doubled quote the delimiter fails. The group is un-doubled.
\<close>

fun quoted_body :: "bytes \<Rightarrow> (bytes \<times> bytes) option" where
  "quoted_body [] = None"
| "quoted_body [c] = (if c = dquote then Some ([], []) else None)"
| "quoted_body (a # b # cs) =
     (if a \<noteq> dquote then
        (case quoted_body (b # cs) of None \<Rightarrow> None | Some (g, r) \<Rightarrow> Some (a # g, r))
      else if b = dquote then
        (case quoted_body cs of None \<Rightarrow> None | Some (g, r) \<Rightarrow> Some (a # b # g, r))
      else Some ([], b # cs))"

definition quoted_token :: "bytes \<Rightarrow> (bytes option \<times> bytes) option" where
  "quoted_token s =
     (case s of
        [] \<Rightarrow> None
      | c # r \<Rightarrow>
          if c = dquote then
            (case quoted_body r of
               Some (g, d # r') \<Rightarrow> if is_delim d then Some (Some (re_undouble g), r') else None
             | _ \<Rightarrow> None)
          else None)"

text \<open>
  Third alternative, \<^verbatim>\<open>([^",)]+) [,)]\<close>: the longest run of characters other than a double
  quote, a comma and a closing parenthesis, not empty, then a delimiter. A shorter run
  ends before a character of the run, where the delimiter fails.
\<close>

definition plain_char :: "char \<Rightarrow> bool" where
  "plain_char c = (c \<noteq> dquote \<and> c \<noteq> CHR '','' \<and> c \<noteq> CHR '')'')"

definition plain_token :: "bytes \<Rightarrow> (bytes option \<times> bytes) option" where
  "plain_token s =
     (let g = takeWhile plain_char s in
      if g = [] then None
      else (case dropWhile plain_char s of
              [] \<Rightarrow> None
            | d # r \<Rightarrow> if is_delim d then Some (Some g, r) else None))"

text \<open>A match of \<^verbatim>\<open>_re_tokenize\<close> at the start of \<open>s\<close>: the token and what is left.\<close>

definition match_token :: "bytes \<Rightarrow> (bytes option \<times> bytes) option" where
  "match_token s =
     (case opt_paren empty_token s of
        Some m \<Rightarrow> Some m
      | None \<Rightarrow>
          (case opt_paren quoted_token s of
             Some m \<Rightarrow> Some m
           | None \<Rightarrow> opt_paren plain_token s))"

text \<open>
  \<^verbatim>\<open>_re_tokenize.finditer(data)\<close>: the matches from left to right, each searched from the
  end of the one before; where the pattern does not match, the search moves one
  character on. Every match takes at least its delimiter.
\<close>

lemma quoted_body_shorter: "quoted_body s = Some (g, r) \<Longrightarrow> length r < length s"
  by (induction s arbitrary: g r rule: quoted_body.induct)
    (auto split: if_splits option.splits)

lemma empty_token_shorter: "empty_token s = Some (t, r) \<Longrightarrow> length r < length s"
  by (auto simp: empty_token_def split: list.splits if_splits)

lemma quoted_token_shorter: "quoted_token s = Some (t, r) \<Longrightarrow> length r < length s"
  by (auto simp: quoted_token_def split: list.splits if_splits option.splits
      dest!: quoted_body_shorter)

lemma plain_token_shorter: "plain_token s = Some (t, r) \<Longrightarrow> length r < length s"
proof -
  assume a: "plain_token s = Some (t, r)"
  then obtain d where "dropWhile plain_char s = d # r"
    by (auto simp: plain_token_def Let_def split: if_splits list.splits)
  then have "length r < length (dropWhile plain_char s)" by simp
  also have "\<dots> \<le> length s" by (rule length_dropWhile_le)
  finally show ?thesis .
qed

lemma opt_paren_shorter:
  assumes "\<forall>u t r. body u = Some (t, r) \<longrightarrow> length r < length u"
    and "opt_paren body s = Some (t, r)"
  shows "length r < length s"
proof (cases s)
  case Nil
  then have "body s = Some (t, r)" using assms(2) by (simp add: opt_paren_def)
  then show ?thesis using assms(1) by blast
next
  case (Cons c u)
  then have "body u = Some (t, r) \<or> body s = Some (t, r)"
    using assms(2) by (auto simp: opt_paren_def split: if_splits option.splits)
  then show ?thesis
    using assms(1) Cons by fastforce
qed

lemma match_token_shorter:
  assumes "match_token s = Some (t, r)"
  shows "length r < length s"
proof -
  have "opt_paren empty_token s = Some (t, r) \<or> opt_paren quoted_token s = Some (t, r)
      \<or> opt_paren plain_token s = Some (t, r)"
    using assms by (auto simp: match_token_def split: option.splits)
  moreover have "\<forall>u t r. empty_token u = Some (t, r) \<longrightarrow> length r < length u"
    using empty_token_shorter by blast
  moreover have "\<forall>u t r. quoted_token u = Some (t, r) \<longrightarrow> length r < length u"
    using quoted_token_shorter by blast
  moreover have "\<forall>u t r. plain_token u = Some (t, r) \<longrightarrow> length r < length u"
    using plain_token_shorter by blast
  ultimately show ?thesis
    using opt_paren_shorter by blast
qed

function tokenize :: "bytes \<Rightarrow> bytes option list" where
  "tokenize s =
     (if s = [] then []
      else (case match_token s of
              Some (tok, r) \<Rightarrow> tok # tokenize r
            | None \<Rightarrow> tokenize (tl s)))"
  by pat_completeness auto
termination
  by (relation "measure length") (auto dest: match_token_shorter)

declare tokenize.simps [simp del]

text \<open>\<^verbatim>\<open>RecordLoader._parse_record\<close>: the tokens it yields, \<^verbatim>\<open>None\<close> for an empty one.\<close>

definition parse_record :: "bytes \<Rightarrow> bytes option list" where
  "parse_record data = (if data = ''()'' then [] else tokenize data)"

text \<open>\<^verbatim>\<open>RecordLoader.load\<close>: every token that is not \<^verbatim>\<open>None\<close> goes through the text loader.\<close>

definition record_load ::
  "builtins \<Rightarrow> ('v, 'w) transformer \<Rightarrow> bytes \<Rightarrow> exn + 'w option list" where
  "record_load B tx data =
     (let cast = get_load_function tx (text_oid B) TEXT in
      sequence (\<lambda>token. case token of
                  None \<Rightarrow> Inr None
                | Some b \<Rightarrow> (case cast b of Inl e \<Rightarrow> Inl e | Inr v \<Rightarrow> Inr (Some v)))
        (parse_record data))"

subsection \<open>A lone NULL field in the text layout\<close>

text \<open>
  Claim C10: for the one-element tuple \<^verbatim>\<open>(None,)\<close> the text composite dumper returns
  exactly \<^verbatim>\<open>b"()"\<close>, the bytes it returns for the empty tuple: the comma of the NULL is the
  last part and the closing parenthesis replaces it. The text record loader parses these
  bytes as a record of no field.
\<close>

theorem text_tuple_dump_single_null:
  "text_tuple_dump tx t [None] = Inr (''()'', t)
   \<and> text_tuple_dump tx t [] = Inr (''()'', t)
   \<and> parse_record ''()'' = []
   \<and> record_load B tx ''()'' = Inr []"
  by (simp add: text_tuple_dump_def text_parts_def parse_record_def record_load_def)

subsection \<open>BinaryTupleDumper\<close>

text \<open>
  \<^verbatim>\<open>_struct_len = struct.Struct("!i")\<close> and \<^verbatim>\<open>_struct_oidlen = struct.Struct("!Ii")\<close>.
  \<^verbatim>\<open>unpack_from(data, i)\<close> raises \<^verbatim>\<open>struct.error\<close> when fewer bytes than the format
  needs are left at the offset.
\<close>

definition struct_len_pack :: "int \<Rightarrow> pyexc + bytes" where
  "struct_len_pack n = pack_signed 4 n"

definition struct_oidlen_pack :: "oid \<Rightarrow> int \<Rightarrow> pyexc + bytes" where
  "struct_oidlen_pack t n =
     (case pack_unsigned 4 t of
        Inl e \<Rightarrow> Inl e
      | Inr a \<Rightarrow> (case pack_signed 4 n of Inl e \<Rightarrow> Inl e | Inr b \<Rightarrow> Inr (a @ b)))"

definition struct_len_unpack_from :: "bytes \<Rightarrow> int \<Rightarrow> pyexc + int" where
  "struct_len_unpack_from data i =
     (if i < 0 \<or> int (length data) - i < 4 then Inl StructError
      else unpack_signed 4 (take 4 (drop (nat i) data)))"

definition struct_oidlen_unpack_from :: "bytes \<Rightarrow> int \<Rightarrow> pyexc + oid \<times> int" where
  "struct_oidlen_unpack_from data i =
     (if i < 0 \<or> int (length data) - i < 8 then Inl StructError
      else
        (case unpack_unsigned 4 (take 4 (drop (nat i) data)) of
           Inl e \<Rightarrow> Inl e
         | Inr t \<Rightarrow>
             (case unpack_signed 4 (take 4 (drop (nat i + 4) data)) of
                Inl e \<Rightarrow> Inl e
              | Inr n \<Rightarrow> Inr (t, n))))"

text \<open>What the loop of \<^verbatim>\<open>BinaryTupleDumper.dump\<close> appends to \<^verbatim>\<open>data\<close> for one item.\<close>

definition binary_parts ::
  "builtins \<Rightarrow> ('v, 'w) transformer \<Rightarrow> 'v option \<Rightarrow> exn + bytes list" where
  "binary_parts B tx item =
     (case tx_dump tx item BINARY of
        Inl e \<Rightarrow> Inl e
      | Inr r \<Rightarrow>
          (let (ad, t) = (case r of WithOid a t \<Rightarrow> (a, t) | Plain a \<Rightarrow> (a, text_oid B)) in
           case ad of
             None \<Rightarrow>
               (case struct_oidlen_pack t (- 1) of
                  Inl e \<Rightarrow> Inl (PyError e)
                | Inr h \<Rightarrow> Inr [h])
           | Some a \<Rightarrow>
               (case struct_oidlen_pack t (int (length a)) of
                  Inl e \<Rightarrow> Inl (PyError e)
                | Inr h \<Rightarrow> Inr [h, a])))"

definition binary_tuple_dump ::
  "builtins \<Rightarrow> ('v, 'w) transformer \<Rightarrow> oid \<Rightarrow> 'v option list \<Rightarrow> exn + bytes \<times> oid" where
  "binary_tuple_dump B tx self_oid obj =
     (case struct_len_pack (int (length obj)) of
        Inl e \<Rightarrow> Inl (PyError e)
      | Inr h \<Rightarrow>
          (case sequence (binary_parts B tx) obj of
             Inl e \<Rightarrow> Inl e
           | Inr pss \<Rightarrow> Inr (concat ([h] @ concat pss), self_oid)))"

subsection \<open>BinaryRecordLoader\<close>

text \<open>
  \<^verbatim>\<open>_walk_record\<close>: the oid, the offset of the payload and the length of each of the
  \<^verbatim>\<open>nfields\<close> fields, read from offset 4 on (\<^verbatim>\<open>range\<close> of a negative number is empty).
\<close>

fun walk_fields :: "nat \<Rightarrow> bytes \<Rightarrow> int \<Rightarrow> exn + (oid \<times> int \<times> int) list" where
  "walk_fields 0 data i = Inr []"
| "walk_fields (Suc k) data i =
     (case struct_oidlen_unpack_from data i of
        Inl e \<Rightarrow> Inl (PyError e)
      | Inr (t, n) \<Rightarrow>
          (case walk_fields k data (i + (if 0 < n then 8 + n else 8)) of
             Inl e \<Rightarrow> Inl e
           | Inr ws \<Rightarrow> Inr ((t, i + 8, n) # ws)))"

definition walk_record :: "bytes \<Rightarrow> exn + (oid \<times> int \<times> int) list" where
  "walk_record data =
     (case struct_len_unpack_from data 0 of
        Inl e \<Rightarrow> Inl (PyError e)
      | Inr nfields \<Rightarrow> walk_fields (nat nfields) data 4)"

text \<open>
  A slice \<^verbatim>\<open>data[a:b]\<close>: a negative bound counts from the end, and both bounds are
  brought into the range of the data.
\<close>

definition slice_bound :: "bytes \<Rightarrow> int \<Rightarrow> nat" where
  "slice_bound data k =
     (if k < 0 then nat (max 0 (k + int (length data))) else min (nat k) (length data))"

definition py_slice :: "bytes \<Rightarrow> int \<Rightarrow> int \<Rightarrow> bytes" where
  "py_slice data a b = take (slice_bound data b - slice_bound data a) (drop (slice_bound data a) data)"

text \<open>
  Modelled from the spec: \<^verbatim>\<open>Transformer.set_row_types\<close> and \<^verbatim>\<open>load_sequence\<close> of
  \<^verbatim>\<open>adapt.py\<close> are not among the sources. The row types are the oid and format of each
  column; each column's bytes go to the load function of the column's type, and NULL
  stays \<^verbatim>\<open>None\<close>. A record with more columns than row types raises \<^verbatim>\<open>IndexError\<close>.
\<close>

fun load_sequence ::
  "('v, 'w) transformer \<Rightarrow> (oid \<times> format) list \<Rightarrow> bytes option list \<Rightarrow> exn + 'w option list" where
  "load_sequence tx types [] = Inr []"
| "load_sequence tx [] (v # vs) = Inl (PyError IndexError)"
| "load_sequence tx ((t, f) # types) (v # vs) =
     (case (case v of
              None \<Rightarrow> Inr None
            | Some b \<Rightarrow>
                (case get_load_function tx t f b of Inl e \<Rightarrow> Inl e | Inr x \<Rightarrow> Inr (Some x))) of
        Inl e \<Rightarrow> Inl e
      | Inr x \<Rightarrow>
          (case load_sequence tx types vs of Inl e \<Rightarrow> Inl e | Inr xs \<Rightarrow> Inr (x # xs)))"

text \<open>
  \<^verbatim>\<open>BinaryRecordLoader.load\<close>. The loader keeps whether the row types are set
  (\<^verbatim>\<open>_types_set\<close>) and, in its transformer, the row types themselves: they are taken from
  the first record it loads.
\<close>

record loader_state =
  types_set :: bool
  row_types :: "(oid \<times> format) list"

definition new_loader :: loader_state where
  "new_loader = \<lparr>types_set = False, row_types = []\<rparr>"

definition config_types :: "loader_state \<Rightarrow> bytes \<Rightarrow> (exn + unit) \<times> loader_state" where
  "config_types st data =
     (case walk_record data of
        Inl e \<Rightarrow> (Inl e, st)
      | Inr ws \<Rightarrow> (Inr (), st\<lparr>row_types := map (\<lambda>(t, off, n). (t, BINARY)) ws\<rparr>))"

definition binary_record_load ::
  "('v, 'w) transformer \<Rightarrow> loader_state \<Rightarrow> bytes \<Rightarrow> (exn + 'w option list) \<times> loader_state" where
  "binary_record_load tx st0 data =
     (case (if \<not> types_set st0 then
              (case config_types st0 data of
                 (Inl e, st) \<Rightarrow> (Inl e, st)
               | (Inr u, st) \<Rightarrow> (Inr (), st\<lparr>types_set := True\<rparr>))
            else (Inr (), st0)) of
        (Inl e, st) \<Rightarrow> (Inl e, st)
      | (Inr u, st) \<Rightarrow>
          (case walk_record data of
             Inl e \<Rightarrow> (Inl e, st)
           | Inr ws \<Rightarrow>
               (load_sequence tx (row_types st)
                  (map (\<lambda>(t, off, n). if n \<noteq> - 1 then Some (py_slice data off (off + n)) else None)
                     ws),
                st)))"

subsection \<open>Registering a composite type\<close>

record FieldInfo =
  fname :: string
  type_oid :: oid

record CompositeTypeInfo =
  name :: string
  oid :: oid
  array_oid :: oid
  field_list :: "FieldInfo list"

text \<open>
  \<^verbatim>\<open>str.title()\<close> on ASCII letters: a letter that follows no letter is made upper case,
  a letter that follows a letter lower case.
\<close>

definition is_lower :: "char \<Rightarrow> bool" where
  "is_lower c = (97 \<le> (of_char c :: nat) \<and> (of_char c :: nat) \<le> 122)"

definition is_upper :: "char \<Rightarrow> bool" where
  "is_upper c = (65 \<le> (of_char c :: nat) \<and> (of_char c :: nat) \<le> 90)"

fun title_from :: "bool \<Rightarrow> string \<Rightarrow> string" where
  "title_from cased [] = []"
| "title_from cased (c # cs) =
     (if is_lower c then
        (if cased then c else char_of (of_char c - (32 :: nat))) # title_from True cs
      else if is_upper c then
        (if cased then char_of (of_char c + (32 :: nat)) else c) # title_from True cs
      else c # title_from False cs)"

definition title :: "string \<Rightarrow> string" where
  "title s = title_from False s"

text \<open>
  The classes that \<^verbatim>\<open>register\<close> creates with \<^verbatim>\<open>type(name, bases, attributes)\<close>: the name
  and the attributes, one constructor for each base class. The factory of a loader is
  the caller's, or the named tuple of the composite's name and field names.
\<close>

datatype 'f factory = Given 'f | NamedTuple string "string list"

datatype 'f adapter =
  TextTupleDumperSub string oid
  | BinaryTupleDumperSub string oid "oid list"
  | CompositeLoaderSub string "'f factory" "oid list"
  | BinaryCompositeLoaderSub string "'f factory"

text \<open>
  Modelled from the spec: \<^verbatim>\<open>Dumper.register\<close> and \<^verbatim>\<open>Loader.register\<close> of \<^verbatim>\<open>adapt.py\<close> and
  \<^verbatim>\<open>array.register\<close> are not among the sources. The registry holds the dumpers by
  runtime type and wire format and the loaders by type oid and wire format, in the
  scope the context implies (\<^verbatim>\<open>None\<close> is the global one); registering installs the
  adapter under its key and replaces what was there. A registration of an array type is
  kept as the call made.
\<close>

record ('x, 'c, 'f) registry =
  dumpers :: "'x option \<times> 'c \<times> format \<rightharpoonup> 'f adapter"
  loaders :: "'x option \<times> oid \<times> format \<rightharpoonup> 'f adapter"
  arrays :: "('x option \<times> oid \<times> oid \<times> string) list"

definition Dumper_register ::
  "'c \<Rightarrow> 'f adapter \<Rightarrow> 'x option \<Rightarrow> format \<Rightarrow> ('x, 'c, 'f) registry \<Rightarrow> ('x, 'c, 'f) registry" where
  "Dumper_register src dumper context fmt R =
     R\<lparr>dumpers := (dumpers R)((context, src, fmt) \<mapsto> dumper)\<rparr>"

definition Loader_register ::
  "oid \<Rightarrow> 'f adapter \<Rightarrow> 'x option \<Rightarrow> format \<Rightarrow> ('x, 'c, 'f) registry \<Rightarrow> ('x, 'c, 'f) registry" where
  "Loader_register t loader context fmt R =
     R\<lparr>loaders := (loaders R)((context, t, fmt) \<mapsto> loader)\<rparr>"

definition array_register ::
  "oid \<Rightarrow> oid \<Rightarrow> 'x option \<Rightarrow> string \<Rightarrow> ('x, 'c, 'f) registry \<Rightarrow> ('x, 'c, 'f) registry" where
  "array_register array_t base_t context nm R =
     R\<lparr>arrays := arrays R @ [(context, array_t, base_t, nm)]\<rparr>"

text \<open>\<^verbatim>\<open>register(info, context, cls, factory)\<close>, statement by statement.\<close>

definition register_dumpers ::
  "CompositeTypeInfo \<Rightarrow> 'x option \<Rightarrow> 'c option \<Rightarrow> ('x, 'c, 'f) registry \<Rightarrow> ('x, 'c, 'f) registry" where
  "register_dumpers info context cls R =
     (case cls of
        None \<Rightarrow> R
      | Some c \<Rightarrow>
          (let dumper = TextTupleDumperSub (''Text'' @ title (name info) @ ''Dumper'') (oid info);
               R = Dumper_register c dumper context BINARY R;
               dumper = BinaryTupleDumperSub (''Binary'' @ title (name info) @ ''Dumper'')
                          (oid info) (map type_oid (field_list info))
           in Dumper_register c dumper context BINARY R))"

text \<open>
  \<^verbatim>\<open>collections.namedtuple\<close> is the runtime's, a parameter: it returns the class, or raises
  \<^verbatim>\<open>ValueError\<close> for a type or field name that is not an identifier or is a keyword, and for
  a field name that starts with an underscore or is repeated. \<^verbatim>\<open>register\<close> calls it
  after the dumpers are registered and before the loaders are.
\<close>

definition register ::
  "(string \<Rightarrow> string list \<Rightarrow> pyexc + 'f factory) \<Rightarrow> CompositeTypeInfo \<Rightarrow> 'x option
     \<Rightarrow> 'c option \<Rightarrow> 'f option \<Rightarrow> ('x, 'c, 'f) registry
     \<Rightarrow> (exn + unit) \<times> ('x, 'c, 'f) registry" where
  "register namedtuple info context cls fac R0 =
     (let R = register_dumpers info context cls R0 in
      case (case fac of
              None \<Rightarrow> namedtuple (name info) (map fname (field_list info))
            | Some f \<Rightarrow> Inr (Given f)) of
        Inl e \<Rightarrow> (Inl (PyError e), R)
      | Inr fac \<Rightarrow>
          (let loader = CompositeLoaderSub (title (name info) @ ''Loader'') fac
                          (map type_oid (field_list info));
               R = Loader_register (oid info) loader context TEXT R;
               loader = BinaryCompositeLoaderSub (''Binary'' @ title (name info) @ ''Loader'') fac;
               R = Loader_register (oid info) loader context BINARY R
           in (Inr (),
               if array_oid info \<noteq> 0
               then array_register (array_oid info) (oid info) context (name info) R
               else R)))"

text \<open>
  \<^verbatim>\<open>namedtuple\<close> on names written in ASCII letters, digits and underscores, for concrete
  inputs: any other character is refused here.
\<close>

definition kwlist :: "string list" where
  "kwlist = [''False'', ''None'', ''True'', ''and'', ''as'', ''assert'', ''async'', ''await'',
     ''break'', ''class'', ''continue'', ''def'', ''del'', ''elif'', ''else'', ''except'',
     ''finally'', ''for'', ''from'', ''global'', ''if'', ''import'', ''in'', ''is'', ''lambda'',
     ''nonlocal'', ''not'', ''or'', ''pass'', ''raise'', ''return'', ''try'', ''while'', ''with'',
     ''yield'']"

definition is_identifier :: "string \<Rightarrow> bool" where
  "is_identifier s =
     (case s of
        [] \<Rightarrow> False
      | c # cs \<Rightarrow>
          (is_lower c \<or> is_upper c \<or> c = CHR ''_'')
          \<and> list_all (\<lambda>c. is_lower c \<or> is_upper c \<or> is_digit c \<or> c = CHR ''_'') cs)"

definition namedtuple_ascii :: "string \<Rightarrow> string list \<Rightarrow> pyexc + 'f factory" where
  "namedtuple_ascii typename field_names =
     (if list_all (\<lambda>n. is_identifier n \<and> \<not> List.member kwlist n) (typename # field_names)
         \<and> list_all (\<lambda>n. take 1 n \<noteq> ''_'') field_names
         \<and> distinct field_names
      then Inr (NamedTuple typename field_names)
      else Inl ValueError)"

definition empty_registry :: "('x, 'c, 'f) registry" where
  "empty_registry = \<lparr>dumpers = Map.empty, loaders = Map.empty, arrays = []\<rparr>"

definition point_info :: CompositeTypeInfo where
  "point_info = \<lparr>name = ''point'', oid = 16400, array_oid = 16399,
     field_list = [\<lparr>fname = ''x'', type_oid = 23\<rparr>, \<lparr>fname = ''y'', type_oid = 23\<rparr>]\<rparr>"

lemma dumpers_register:
  "dumpers (snd (register namedtuple info context cls fac R))
     = dumpers (register_dumpers info context cls R)"
  by (simp add: register_def Let_def Loader_register_def array_register_def
      split: sum.splits option.splits)

lemma point_names:
  "list_all (\<lambda>n. is_identifier n \<and> \<not> List.member kwlist n) [''point'', ''x'', ''y'']"
  "list_all (\<lambda>n. take 1 n \<noteq> ''_'') [''x'', ''y'']"
  "distinct [''x'', ''y'']"
  by code_simp+

lemma namedtuple_point:
  "namedtuple_ascii ''point'' [''x'', ''y''] = Inr (NamedTuple ''point'' [''x'', ''y''])"
  unfolding namedtuple_ascii_def using point_names by simp

lemma register_dumpers_text:
  "dumpers (register_dumpers info context cls R) (x, c, TEXT) = dumpers R (x, c, TEXT)"
  by (simp add: register_dumpers_def Let_def Dumper_register_def split: option.splits)

text \<open>
  Claim C3 asks that after \<^verbatim>\<open>register(info, context, cls, factory)\<close> with a class a dumper
  is registered for \<^verbatim>\<open>cls\<close> under the text format and one under the binary format. The
  source registers both generated dumpers with \<^verbatim>\<open>format=Format.BINARY\<close>: on the empty
  registry, for a composite \<^verbatim>\<open>point(x int4, y int4)\<close> and the class \<^verbatim>\<open>Point\<close>, no dumper
  is found for the class under the text format, the binary key holds the binary dumper
  (the text dumper stored first is replaced), and the call returns with the two loaders
  and the array registration installed.
\<close>

theorem register_point_no_text_dumper:
  "fst (register namedtuple_ascii point_info None (Some ''Point'') None
       (empty_registry :: (unit, string, unit) registry)) = Inr ()
   \<and> dumpers (snd (register namedtuple_ascii point_info None (Some ''Point'') None
       (empty_registry :: (unit, string, unit) registry))) (None, ''Point'', TEXT) = None
   \<and> dumpers (snd (register namedtuple_ascii point_info None (Some ''Point'') None
       (empty_registry :: (unit, string, unit) registry))) (None, ''Point'', BINARY)
       = Some (BinaryTupleDumperSub (''Binary'' @ title ''point'' @ ''Dumper'') 16400 [23, 23])
   \<and> loaders (snd (register namedtuple_ascii point_info None (Some ''Point'') None
       (empty_registry :: (unit, string, unit) registry))) (None, 16400, TEXT)
       = Some (CompositeLoaderSub (title ''point'' @ ''Loader'')
           (NamedTuple ''point'' [''x'', ''y'']) [23, 23])
   \<and> loaders (snd (register namedtuple_ascii point_info None (Some ''Point'') None
       (empty_registry :: (unit, string, unit) registry))) (None, 16400, BINARY)
       = Some (BinaryCompositeLoaderSub (''Binary'' @ title ''point'' @ ''Loader'')
           (NamedTuple ''point'' [''x'', ''y'']))
   \<and> arrays (snd (register namedtuple_ascii point_info None (Some ''Point'') None
       (empty_registry :: (unit, string, unit) registry))) = [(None, 16399, 16400, ''point'')]"
  by (simp add: register_def register_dumpers_def Let_def Dumper_register_def
      Loader_register_def array_register_def empty_registry_def point_info_def
      namedtuple_point)

subsection \<open>Round trip of the text layout\<close>

text \<open>
  A payload survives the text layout when, quoted, it holds no two backslashes in a row
  (the loader un-doubles them, the dumper does not double them) and, not quoted, it holds
  no closing parenthesis and, after the first field, does not start with an opening one
  (neither makes the dumper quote, and the tokenizer takes both for structure).
\<close>

fun has_double_backslash :: "bytes \<Rightarrow> bool" where
  "has_double_backslash (a # b # cs) =
     ((a = backslash \<and> b = backslash) \<or> has_double_backslash (b # cs))"
| "has_double_backslash cs = False"

definition payload_of :: "maybe_oid \<Rightarrow> bytes option" where
  "payload_of r = (case r of WithOid a t \<Rightarrow> a | Plain a \<Rightarrow> a)"

definition wire_safe :: "bool \<Rightarrow> bytes \<Rightarrow> bool" where
  "wire_safe first b =
     (if needs_quotes b then \<not> has_double_backslash b
      else CHR '')'' \<notin> set b \<and> (first \<or> hd b \<noteq> CHR ''(''))"

text \<open>What the dumper writes for a payload: nothing for NULL, the payload itself or its quoted form.\<close>

definition enc :: "bytes option \<Rightarrow> bytes" where
  "enc f = (case f of None \<Rightarrow> [] | Some b \<Rightarrow>
      if needs_quotes b then [dquote] @ re_escape b @ [dquote] else b)"

definition slot_ok :: "bool \<Rightarrow> bytes option \<Rightarrow> bool" where
  "slot_ok first f = (case f of None \<Rightarrow> True | Some b \<Rightarrow> wire_safe first b)"

lemma re_escape_Cons: "re_escape (c # cs) = c # (if c = dquote then [c] else []) @ re_escape cs"
  by simp

lemma re_undouble_Cons:
  "(a \<noteq> dquote \<and> a \<noteq> backslash) \<or> s = [] \<or> hd s \<noteq> a \<Longrightarrow> re_undouble (a # s) = a # re_undouble s"
  by (cases s) auto

lemma re_undouble_escape: "\<not> has_double_backslash b \<Longrightarrow> re_undouble (re_escape b) = b"
proof (induction b rule: has_double_backslash.induct)
  case (1 a b cs)
  show ?case
  proof (cases "a = dquote")
    case True
    then show ?thesis using 1 by simp
  next
    case False
    have "re_undouble (a # re_escape (b # cs)) = a # re_undouble (re_escape (b # cs))"
      using False 1(2) by (intro re_undouble_Cons) (auto simp: dquote_def backslash_def)
    then show ?thesis using False 1 by simp
  qed
qed (auto simp: dquote_def backslash_def)

lemma quoted_body_Cons:
  "a \<noteq> dquote \<Longrightarrow> s \<noteq> [] \<Longrightarrow>
   quoted_body (a # s) = (case quoted_body s of None \<Rightarrow> None | Some (g, r) \<Rightarrow> Some (a # g, r))"
  by (cases s) auto

lemma quoted_body_escape:
  "d \<noteq> dquote \<Longrightarrow> quoted_body (re_escape b @ dquote # d # rest) = Some (re_escape b, d # rest)"
proof (induction b)
  case Nil
  then show ?case by simp
next
  case (Cons a b)
  then show ?case by (cases "a = dquote") (simp_all add: quoted_body_Cons)
qed

lemma is_delim_not_dquote: "is_delim d \<Longrightarrow> d \<noteq> dquote"
  by (auto simp: is_delim_def dquote_def)

lemma is_delim_not_plain: "is_delim d \<Longrightarrow> \<not> plain_char d"
  by (auto simp: is_delim_def plain_char_def)

lemma is_delim_not_paren: "is_delim d \<Longrightarrow> d \<noteq> CHR ''(''"
  by (auto simp: is_delim_def)

lemma unquoted_plain:
  assumes "\<not> needs_quotes b" and "CHR '')'' \<notin> set b"
  shows "b \<noteq> []" and "\<forall>c \<in> set b. plain_char c"
  using assms by (auto simp: needs_quotes_def plain_char_def list_ex_iff)

lemma plain_token_unquoted:
  assumes "\<not> needs_quotes b" and "CHR '')'' \<notin> set b" and "is_delim d"
  shows "plain_token (b @ d # rest) = Some (Some b, rest)"
proof -
  have p: "b \<noteq> []" "\<forall>c \<in> set b. plain_char c" using unquoted_plain [OF assms(1,2)] by auto
  have t: "takeWhile plain_char (b @ d # rest) = b"
    using p(2) is_delim_not_plain [OF assms(3)] by (simp add: takeWhile_append2)
  have dr: "dropWhile plain_char (b @ d # rest) = d # rest"
    using p(2) is_delim_not_plain [OF assms(3)] by (simp add: dropWhile_append2)
  show ?thesis using p(1) assms(3) by (simp add: plain_token_def t dr)
qed

lemma quoted_token_quoted:
  assumes "\<not> has_double_backslash b" and "is_delim d"
  shows "quoted_token ([dquote] @ re_escape b @ [dquote] @ d # rest) = Some (Some b, rest)"
  using assms quoted_body_escape [OF is_delim_not_dquote [OF assms(2)], of b rest]
  by (simp add: quoted_token_def re_undouble_escape)

text \<open>The three alternatives on a written field, the optional parenthesis apart.\<close>

lemma slot_bodies:
  assumes "slot_ok first f" and "is_delim d"
  shows "(case empty_token (enc f @ d # rest) of Some m \<Rightarrow> Some m | None \<Rightarrow>
          (case quoted_token (enc f @ d # rest) of Some m \<Rightarrow> Some m | None \<Rightarrow>
             plain_token (enc f @ d # rest))) = Some (f, rest)"
proof -
  define s where "s = enc f @ d # rest"
  have "(case empty_token s of Some m \<Rightarrow> Some m | None \<Rightarrow>
          (case quoted_token s of Some m \<Rightarrow> Some m | None \<Rightarrow> plain_token s)) = Some (f, rest)"
  proof (cases f)
    case None
    then have "empty_token s = Some (f, rest)"
      using assms(2) by (simp add: s_def enc_def empty_token_def)
    then show ?thesis by simp
  next
    case (Some b)
    show ?thesis
    proof (cases "needs_quotes b")
      case True
      then have h: "\<not> has_double_backslash b"
        using assms(1) Some by (simp add: slot_ok_def wire_safe_def)
      have e: "s = [dquote] @ re_escape b @ [dquote] @ d # rest"
        using True Some by (simp add: s_def enc_def)
      have 1: "empty_token s = None"
        by (simp add: e empty_token_def is_delim_def dquote_def)
      have 2: "quoted_token s = Some (f, rest)"
        unfolding e Some by (rule quoted_token_quoted [OF h assms(2)])
      show ?thesis by (simp add: 1 2)
    next
      case False
      then have h: "CHR '')'' \<notin> set b"
        using assms(1) Some by (simp add: slot_ok_def wire_safe_def)
      have b: "b \<noteq> []" "\<forall>c \<in> set b. plain_char c" using unquoted_plain [OF False h] by auto
      then obtain c cs where c: "b = c # cs" by (cases b) auto
      have e: "s = b @ d # rest" using False Some by (simp add: s_def enc_def)
      have pc: "plain_char c" using b(2) c by simp
      have 1: "empty_token s = None"
        using pc by (auto simp: e c empty_token_def is_delim_def plain_char_def)
      have 2: "quoted_token s = None"
        using pc by (auto simp: e c quoted_token_def plain_char_def)
      have 3: "plain_token s = Some (f, rest)"
        unfolding e Some by (rule plain_token_unquoted [OF False h assms(2)])
      show ?thesis by (simp add: 1 2 3)
    qed
  qed
  then show ?thesis unfolding s_def .
qed

lemma enc_no_paren:
  assumes "slot_ok False f" and "is_delim d"
  shows "hd (enc f @ d # rest) \<noteq> CHR ''(''" and "enc f @ d # rest \<noteq> []"
proof -
  show "enc f @ d # rest \<noteq> []" by simp
  show "hd (enc f @ d # rest) \<noteq> CHR ''(''"
  proof (cases f)
    case None
    then show ?thesis using is_delim_not_paren [OF assms(2)] by (simp add: enc_def)
  next
    case (Some b)
    show ?thesis
    proof (cases "needs_quotes b")
      case True
      then show ?thesis using Some by (simp add: enc_def dquote_def)
    next
      case False
      then have "b \<noteq> []" by (auto simp: needs_quotes_def)
      then show ?thesis using False Some assms(1)
        by (simp add: enc_def slot_ok_def wire_safe_def)
    qed
  qed
qed

lemma opt_paren_none: "s \<noteq> [] \<Longrightarrow> hd s \<noteq> CHR ''('' \<Longrightarrow> opt_paren body s = body s"
  by (cases s) (auto simp: opt_paren_def)

lemma match_token_inner:
  assumes "slot_ok False f" and "is_delim d"
  shows "match_token (enc f @ d # rest) = Some (f, rest)"
proof -
  note n = enc_no_paren [OF assms, of rest]
  have o: "opt_paren body (enc f @ d # rest) = body (enc f @ d # rest)" for body
    by (rule opt_paren_none [OF n(2) n(1)])
  show ?thesis
    unfolding match_token_def o by (rule slot_bodies [OF assms])
qed

lemma match_token_first:
  assumes "slot_ok True f" and "is_delim d"
  shows "match_token (CHR ''('' # enc f @ d # rest) = Some (f, rest)"
proof -
  define s where "s = enc f @ d # rest"
  note b = slot_bodies [OF assms, of rest, folded s_def]
  have opp: "opt_paren body (CHR ''('' # s) = (case body s of Some m \<Rightarrow> Some m | None \<Rightarrow> body (CHR ''('' # s))"
    for body
    by (simp add: opt_paren_def)
  have e: "empty_token (CHR ''('' # s) = None"
    by (simp add: empty_token_def is_delim_def)
  have q: "quoted_token (CHR ''('' # s) = None"
    by (simp add: quoted_token_def dquote_def)
  have "match_token (CHR ''('' # s) = Some (f, rest)"
  proof (cases "empty_token s")
    case (Some m)
    then show ?thesis using b by (simp add: match_token_def opp)
  next
    case None
    note e1 = None
    show ?thesis
    proof (cases "quoted_token s")
      case (Some m)
      then show ?thesis using b e1 by (simp add: match_token_def opp e)
    next
      case None
      then show ?thesis using b e1 by (simp add: match_token_def opp e q)
    qed
  qed
  then show ?thesis unfolding s_def .
qed


fun render :: "bytes option list \<Rightarrow> bytes" where
  "render [] = []"
| "render [f] = enc f @ '')''"
| "render (f # g # fs) = enc f @ '','' @ render (g # fs)"

definition text_field_ok :: "builtins \<Rightarrow> ('v, 'v) transformer \<Rightarrow> bool \<Rightarrow> 'v option \<Rightarrow> bool" where
  "text_field_ok B tx first item =
     (case item of
        None \<Rightarrow> True
      | Some v \<Rightarrow>
          (case tx_dump tx item TEXT of
             Inl e \<Rightarrow> False
           | Inr r \<Rightarrow>
               (case payload_of r of
                  None \<Rightarrow> False
                | Some b \<Rightarrow>
                    wire_safe first b \<and> get_load_function tx (text_oid B) TEXT b = Inr v)))"

definition slot_parts :: "bytes option \<Rightarrow> bytes list" where
  "slot_parts f = (case f of None \<Rightarrow> ['',''] | Some b \<Rightarrow> [enc f, '',''])"

definition load_token :: "builtins \<Rightarrow> ('v, 'w) transformer \<Rightarrow> bytes option \<Rightarrow> exn + 'w option" where
  "load_token B tx token =
     (case token of
        None \<Rightarrow> Inr None
      | Some b \<Rightarrow> (case get_load_function tx (text_oid B) TEXT b of Inl e \<Rightarrow> Inl e | Inr v \<Rightarrow> Inr (Some v)))"

lemma record_load_alt: "record_load B tx data = sequence (load_token B tx) (parse_record data)"
proof -
  have "load_token B tx = (\<lambda>token. case token of
                  None \<Rightarrow> Inr None
                | Some b \<Rightarrow> (case get_load_function tx (text_oid B) TEXT b of
                    Inl e \<Rightarrow> Inl e | Inr v \<Rightarrow> Inr (Some v)))"
    by (rule ext) (simp add: load_token_def)
  then show ?thesis by (simp add: record_load_def Let_def)
qed

lemma tokenize_step: "match_token s = Some (t, r) \<Longrightarrow> s \<noteq> [] \<Longrightarrow> tokenize s = t # tokenize r"
  by (subst tokenize.simps) simp

lemma tokenize_Nil: "tokenize [] = []"
  by (subst tokenize.simps) simp

lemma tokenize_render: "list_all (slot_ok False) fs \<Longrightarrow> tokenize (render fs) = fs"
proof (induction fs rule: render.induct)
  case 1
  show ?case by (simp add: tokenize_Nil)
next
  case (2 f)
  then have "match_token (enc f @ CHR '')'' # []) = Some (f, [])"
    by (intro match_token_inner) (simp_all add: is_delim_def)
  then show ?case by (simp add: tokenize_step tokenize_Nil)
next
  case (3 f g fs)
  then have "match_token (enc f @ CHR '','' # render (g # fs)) = Some (f, render (g # fs))"
    by (intro match_token_inner) (simp_all add: is_delim_def)
  then have "tokenize (render (f # g # fs)) = f # tokenize (render (g # fs))"
    by (simp add: tokenize_step)
  then show ?case using 3 by simp
qed

lemma tokenize_render_first:
  assumes "slot_ok True f" and "list_all (slot_ok False) fs"
  shows "tokenize (CHR ''('' # render (f # fs)) = f # fs"
proof (cases fs)
  case Nil
  have "match_token (CHR ''('' # enc f @ CHR '')'' # []) = Some (f, [])"
    using assms(1) by (intro match_token_first) (simp_all add: is_delim_def)
  then show ?thesis using Nil by (simp add: tokenize_step tokenize_Nil)
next
  case (Cons g gs)
  have "match_token (CHR ''('' # enc f @ CHR '','' # render (g # gs)) = Some (f, render (g # gs))"
    using assms(1) by (intro match_token_first) (simp_all add: is_delim_def)
  then have "tokenize (CHR ''('' # render (f # g # gs)) = f # tokenize (render (g # gs))"
    by (simp add: tokenize_step)
  then show ?thesis using Cons assms(2) tokenize_render [of "g # gs"] by simp
qed

lemma concat_slot_parts: "concat (slot_parts f) = enc f @ '',''"
  by (simp add: slot_parts_def enc_def split: option.splits)

lemma slot_parts_snoc: "\<exists>xs. slot_parts f = xs @ ['',''] \<and> concat xs = enc f"
  by (cases f) (simp_all add: slot_parts_def enc_def)

lemma parts_snoc:
  "fs \<noteq> [] \<Longrightarrow> \<exists>xs. concat (map slot_parts fs) = xs @ ['',''] \<and> concat xs @ '')'' = render fs"
proof (induction fs rule: render.induct)
  case 1
  then show ?case by simp
next
  case (2 f)
  then show ?case using slot_parts_snoc [of f] by auto
next
  case (3 f g fs)
  then obtain xs where xs: "concat (map slot_parts (g # fs)) = xs @ ['','']"
      "concat xs @ '')'' = render (g # fs)"
    by auto
  have "concat (map slot_parts (f # g # fs)) = (slot_parts f @ xs) @ ['','']"
    using xs(1) by simp
  moreover have "concat (slot_parts f @ xs) @ '')'' = render (f # g # fs)"
    using xs(2) by (simp add: concat_slot_parts)
  ultimately show ?case by blast
qed

lemma replace_last_parts:
  assumes "fs \<noteq> []"
  shows "concat (([''(''] @ concat (map slot_parts fs))
           [length ([''(''] @ concat (map slot_parts fs)) - 1 := '')''])
         = CHR ''('' # render fs"
proof -
  obtain xs where xs: "concat (map slot_parts fs) = xs @ ['','']" "concat xs @ '')'' = render fs"
    using parts_snoc [OF assms] by blast
  have "([''(''] @ xs @ ['',''])[length ([''(''] @ xs @ ['','']) - 1 := '')''] = [''(''] @ xs @ ['')'']"
    using list_update_length [of "[''(''] @ xs" "'',''" "[]" "'')''"] by simp
  then show ?thesis using xs by simp
qed

lemma render_not_close:
  assumes "list_all (\<lambda>f. enc f = [] \<longrightarrow> f = None) fs" and "fs \<noteq> [None]" and "fs \<noteq> []"
  shows "CHR ''('' # render fs \<noteq> ''()''"
proof (cases fs rule: render.cases)
  case 1
  then show ?thesis using assms by simp
next
  case (2 f)
  then show ?thesis using assms by auto
next
  case (3 f g gs)
  then have "length (render fs) \<ge> 2"
    by (cases gs) simp_all
  then show ?thesis by auto
qed

lemma enc_empty: "enc f = [] \<Longrightarrow> f = None"
  by (cases f) (auto simp: enc_def needs_quotes_def split: if_splits)


definition text_fields_ok :: "builtins \<Rightarrow> ('v, 'v) transformer \<Rightarrow> 'v option list \<Rightarrow> bool" where
  "text_fields_ok B tx obj =
     (case obj of
        [] \<Rightarrow> True
      | item # items \<Rightarrow>
          text_field_ok B tx True item \<and> list_all (text_field_ok B tx False) items)"

lemma field_slot:
  assumes "text_field_ok B tx first item"
  shows "\<exists>f. text_parts tx item = Inr (slot_parts f) \<and> slot_ok first f
     \<and> load_token B tx f = Inr item"
proof (cases item)
  case None
  then have "text_parts tx item = Inr (slot_parts None) \<and> slot_ok first None
     \<and> load_token B tx None = Inr item"
    by (simp add: text_parts_def slot_parts_def slot_ok_def load_token_def)
  then show ?thesis by blast
next
  case (Some v)
  then obtain r b where r: "tx_dump tx item TEXT = Inr r" "payload_of r = Some b"
      "wire_safe first b" "get_load_function tx (text_oid B) TEXT b = Inr v"
    using assms by (auto simp: text_field_ok_def split: sum.splits option.splits)
  have "text_parts tx item = Inr (slot_parts (Some b))"
    using Some r(1,2) by (simp add: text_parts_def slot_parts_def enc_def payload_of_def)
  moreover have "slot_ok first (Some b)" using r(3) by (simp add: slot_ok_def)
  moreover have "load_token B tx (Some b) = Inr item" using r(4) Some by (simp add: load_token_def)
  ultimately show ?thesis by blast
qed

lemma fields_slots:
  assumes "list_all (text_field_ok B tx False) obj"
  shows "\<exists>fs. sequence (text_parts tx) obj = Inr (map slot_parts fs)
     \<and> list_all (slot_ok False) fs \<and> sequence (load_token B tx) fs = Inr obj"
  using assms
proof (induction obj)
  case Nil
  have "sequence (text_parts tx) [] = Inr (map slot_parts [])
     \<and> list_all (slot_ok False) [] \<and> sequence (load_token B tx) [] = Inr []"
    by simp
  then show ?case by blast
next
  case (Cons item obj)
  then obtain fs where fs: "sequence (text_parts tx) obj = Inr (map slot_parts fs)"
      "list_all (slot_ok False) fs" "sequence (load_token B tx) fs = Inr obj"
    by auto
  obtain f where f: "text_parts tx item = Inr (slot_parts f)" "slot_ok False f"
      "load_token B tx f = Inr item"
    using field_slot [of B tx False item] Cons.prems by auto
  have "sequence (text_parts tx) (item # obj) = Inr (map slot_parts (f # fs))
     \<and> list_all (slot_ok False) (f # fs) \<and> sequence (load_token B tx) (f # fs) = Inr (item # obj)"
    using fs f by simp
  then show ?case by blast
qed

lemma text_roundtrip:
  assumes "obj \<noteq> [None]" and "text_fields_ok B tx obj"
  shows "\<exists>data. text_tuple_dump tx t obj = Inr (data, t) \<and> record_load B tx data = Inr obj"
proof (cases obj)
  case Nil
  then have "text_tuple_dump tx t obj = Inr (''()'', t) \<and> record_load B tx ''()'' = Inr obj"
    by (simp add: text_tuple_dump_def record_load_alt parse_record_def)
  then show ?thesis by blast
next
  case (Cons item items)
  then have ok: "text_field_ok B tx True item" "list_all (text_field_ok B tx False) items"
    using assms(2) by (simp_all add: text_fields_ok_def)
  obtain f where f: "text_parts tx item = Inr (slot_parts f)" "slot_ok True f"
      "load_token B tx f = Inr item"
    using field_slot [OF ok(1)] by blast
  obtain fs where fs: "sequence (text_parts tx) items = Inr (map slot_parts fs)"
      "list_all (slot_ok False) fs" "sequence (load_token B tx) fs = Inr items"
    using fields_slots [OF ok(2)] by blast
  define data where "data = CHR ''('' # render (f # fs)"
  have seq: "sequence (text_parts tx) obj = Inr (map slot_parts (f # fs))"
    using Cons f(1) fs(1) by simp
  have d: "text_tuple_dump tx t obj = Inr (data, t)"
    using Cons seq replace_last_parts [of "f # fs"]
    by (simp add: text_tuple_dump_def Let_def data_def del: render.simps)
  have ld: "sequence (load_token B tx) (f # fs) = Inr obj"
    using Cons f(3) fs(3) by simp
  have "f # fs \<noteq> [None]"
  proof
    assume "f # fs = [None]"
    then have "obj = [None]" using ld by (simp add: load_token_def)
    then show False using assms(1) by simp
  qed
  moreover have "list_all (\<lambda>f. enc f = [] \<longrightarrow> f = None) (f # fs)"
    using enc_empty by (simp add: list_all_iff)
  ultimately have ne: "data \<noteq> ''()''"
    unfolding data_def by (intro render_not_close) simp_all
  have "parse_record data = f # fs"
    using ne tokenize_render_first [OF f(2) fs(2)] by (simp add: parse_record_def data_def)
  then have "record_load B tx data = Inr obj"
    using ld by (simp add: record_load_alt)
  then show ?thesis using d by blast
qed

subsection \<open>Round trip of the binary layout\<close>

text \<open>
  The payload and the oid a dumped field is written with, and the fields that survive
  the binary layout: the oid fits \<^verbatim>\<open>!I\<close>, the length of the payload fits \<^verbatim>\<open>!i\<close>, \<^verbatim>\<open>None\<close> and
  only \<^verbatim>\<open>None\<close> is dumped as NULL, and the load function of the oid gives the value back.
\<close>

definition with_oid :: "builtins \<Rightarrow> maybe_oid \<Rightarrow> bytes option \<times> oid" where
  "with_oid B r = (case r of WithOid a t \<Rightarrow> (a, t) | Plain a \<Rightarrow> (a, text_oid B))"

definition binary_field_ok :: "builtins \<Rightarrow> ('v, 'v) transformer \<Rightarrow> 'v option \<Rightarrow> bool" where
  "binary_field_ok B tx item =
     (case tx_dump tx item BINARY of
        Inl e \<Rightarrow> False
      | Inr r \<Rightarrow>
          0 \<le> snd (with_oid B r) \<and> snd (with_oid B r) < 2 ^ 32 \<and>
          (case fst (with_oid B r) of
             None \<Rightarrow> item = None
           | Some a \<Rightarrow>
               int (length a) < 2 ^ 31 \<and>
               (case item of
                  None \<Rightarrow> False
                | Some v \<Rightarrow> get_load_function tx (snd (with_oid B r)) BINARY a = Inr v)))"

text \<open>
  The length a dumped field announces, the bytes written for it, and the oid, payload
  offset and length of each field of a record that starts at an offset.
\<close>

definition wire_len :: "bytes option \<Rightarrow> int" where
  "wire_len ad = (case ad of None \<Rightarrow> - 1 | Some a \<Rightarrow> int (length a))"

definition field_bytes :: "bytes option \<times> oid \<Rightarrow> bytes" where
  "field_bytes p = be_enc 4 (snd p) @ be_enc 4 (wire_len (fst p))
     @ (case fst p of None \<Rightarrow> [] | Some a \<Rightarrow> a)"

fun entries :: "int \<Rightarrow> (bytes option \<times> oid) list \<Rightarrow> (oid \<times> int \<times> int) list" where
  "entries off [] = []"
| "entries off (p # ps) =
     (snd p, off + 8, wire_len (fst p))
       # entries (off + 8 + (if 0 < wire_len (fst p) then wire_len (fst p) else 0)) ps"

definition wire_ok :: "bytes option \<times> oid \<Rightarrow> bool" where
  "wire_ok p = (0 \<le> snd p \<and> snd p < 2 ^ 32 \<and> wire_len (fst p) < 2 ^ 31)"

lemma unpack_pack_unsigned:
  assumes "pack_unsigned n x = Inr b"
  shows "unpack_unsigned n b = Inr x"
proof -
  have r: "0 \<le> x" "x < 2 ^ (8 * n)" and b: "b = be_enc n x"
    using assms by (auto simp: pack_unsigned_def split: if_splits)
  have "x mod 256 ^ n = x" using r by (simp add: pow256)
  then show ?thesis by (simp add: unpack_unsigned_def b be_dec_be_enc)
qed

lemma unpack_signed_be_enc4:
  "- (2 ^ 31) \<le> n \<Longrightarrow> n < 2 ^ 31 \<Longrightarrow> unpack_signed 4 (be_enc 4 n) = Inr n"
  by (rule unpack_pack_signed) (simp_all add: pack_signed_def)

lemma unpack_unsigned_be_enc4:
  "0 \<le> t \<Longrightarrow> t < 2 ^ 32 \<Longrightarrow> unpack_unsigned 4 (be_enc 4 t) = Inr t"
  by (rule unpack_pack_unsigned) (simp_all add: pack_unsigned_def)

lemma wire_len_ge: "- 1 \<le> wire_len ad"
  by (simp add: wire_len_def split: option.splits)

lemma length_field_bytes:
  "int (length (field_bytes p)) = 8 + (if 0 < wire_len (fst p) then wire_len (fst p) else 0)"
  by (auto simp: field_bytes_def wire_len_def split: option.splits)

lemma oidlen_at:
  assumes "wire_ok p"
  shows "struct_oidlen_unpack_from (pre @ field_bytes p @ post) (int (length pre))
     = Inr (snd p, wire_len (fst p))"
proof -
  define data where "data = pre @ field_bytes p @ post"
  have f: "field_bytes p = be_enc 4 (snd p) @ be_enc 4 (wire_len (fst p)) @
      (case fst p of None \<Rightarrow> [] | Some a \<Rightarrow> a)"
    by (simp add: field_bytes_def)
  have a: "take 4 (drop (nat (int (length pre))) data) = be_enc 4 (snd p)"
    by (simp add: f data_def)
  have b: "take 4 (drop (nat (int (length pre)) + 4) data) = be_enc 4 (wire_len (fst p))"
    by (simp add: f drop_append data_def)
  have l: "(int (length pre) < 0 \<or> int (length data) - int (length pre) < 8) = False"
    using length_field_bytes [of p] wire_len_ge [of "fst p"] by (simp add: data_def)
  have u: "unpack_unsigned 4 (be_enc 4 (snd p)) = Inr (snd p)"
    using assms by (intro unpack_unsigned_be_enc4) (simp_all add: wire_ok_def)
  have s: "unpack_signed 4 (be_enc 4 (wire_len (fst p))) = Inr (wire_len (fst p))"
    using assms wire_len_ge [of "fst p"] by (intro unpack_signed_be_enc4) (simp_all add: wire_ok_def)
  have "struct_oidlen_unpack_from data (int (length pre)) = Inr (snd p, wire_len (fst p))"
    unfolding struct_oidlen_unpack_from_def
    by (simp only: l a b u s if_False sum.case)
  then show ?thesis by (simp only: data_def)
qed

lemma walk_fields_entries:
  assumes "list_all wire_ok ps"
  shows "walk_fields (length ps) (pre @ concat (map field_bytes ps) @ post) (int (length pre))
     = Inr (entries (int (length pre)) ps)"
  using assms
proof (induction ps arbitrary: pre)
  case Nil
  show ?case by simp
next
  case (Cons p ps)
  define data where "data = pre @ concat (map field_bytes (p # ps)) @ post"
  define i where "i = int (length pre)"
  define n where "n = wire_len (fst p)"
  define j where "j = int (length (pre @ field_bytes p))"
  have d: "data = pre @ field_bytes p @ (concat (map field_bytes ps) @ post)"
    by (simp add: data_def)
  have h: "struct_oidlen_unpack_from data i = Inr (snd p, n)"
    unfolding d i_def n_def using Cons.prems by (intro oidlen_at) simp
  have nx: "i + (if 0 < n then 8 + n else 8) = j"
    using length_field_bytes [of p] by (simp add: i_def n_def j_def)
  have d2: "data = (pre @ field_bytes p) @ concat (map field_bytes ps) @ post"
    by (simp add: data_def)
  have r: "walk_fields (length ps) data j = Inr (entries j ps)"
    unfolding d2 j_def using Cons.prems by (intro Cons.IH) simp
  have e: "i + 8 + (if 0 < n then n else 0) = j"
    using length_field_bytes [of p] by (simp add: i_def n_def j_def)
  have "walk_fields (length (p # ps)) data i =
      (case struct_oidlen_unpack_from data i of
         Inl e \<Rightarrow> Inl (PyError e)
       | Inr (t, n) \<Rightarrow>
          (case walk_fields (length ps) data (i + (if 0 < n then 8 + n else 8)) of
             Inl e \<Rightarrow> Inl e
           | Inr ws \<Rightarrow> Inr ((t, i + 8, n) # ws)))"
    by (simp only: length_Cons walk_fields.simps)
  also have "\<dots> = Inr ((snd p, i + 8, n) # entries j ps)"
    by (simp only: h sum.case prod.case nx r)
  also have "\<dots> = Inr (entries i (p # ps))"
    by (simp only: entries.simps e n_def [symmetric])
  finally show ?case by (simp only: data_def i_def)
qed


lemma py_slice_mid:
  "py_slice (xs @ a @ ys) (int (length xs)) (int (length xs) + int (length a)) = a"
proof -
  have 1: "slice_bound (xs @ a @ ys) (int (length xs)) = length xs"
    by (simp add: slice_bound_def)
  have 2: "slice_bound (xs @ a @ ys) (int (length xs) + int (length a)) = length xs + length a"
    by (simp add: slice_bound_def nat_add_distrib)
  show ?thesis by (simp add: py_slice_def 1 2)
qed

definition slice_of :: "bytes \<Rightarrow> oid \<times> int \<times> int \<Rightarrow> bytes option" where
  "slice_of data w =
     (case w of (t, off, n) \<Rightarrow> if n \<noteq> - 1 then Some (py_slice data off (off + n)) else None)"

lemma slice_of_field:
  "slice_of (pre @ field_bytes p @ post) (t, int (length pre) + 8, wire_len (fst p)) = fst p"
proof (cases "fst p")
  case None
  then show ?thesis by (simp add: slice_of_def wire_len_def)
next
  case (Some a)
  have "pre @ field_bytes p @ post
      = (pre @ be_enc 4 (snd p) @ be_enc 4 (wire_len (fst p))) @ a @ post"
    using Some by (simp add: field_bytes_def)
  moreover have "int (length pre) + 8
      = int (length (pre @ be_enc 4 (snd p) @ be_enc 4 (wire_len (fst p))))"
    by simp
  ultimately have "py_slice (pre @ field_bytes p @ post) (int (length pre) + 8)
      (int (length pre) + 8 + int (length a)) = a"
    using py_slice_mid [of "pre @ be_enc 4 (snd p) @ be_enc 4 (wire_len (fst p))" a post]
    by (simp only:)
  then show ?thesis using Some by (simp add: slice_of_def wire_len_def)
qed

lemma slices_entries:
  "map (slice_of (pre @ concat (map field_bytes ps) @ post)) (entries (int (length pre)) ps)
     = map fst ps"
proof (induction ps arbitrary: pre)
  case Nil
  show ?case by simp
next
  case (Cons p ps)
  define data where "data = pre @ concat (map field_bytes (p # ps)) @ post"
  define i where "i = int (length pre)"
  define j where "j = int (length (pre @ field_bytes p))"
  have d: "data = pre @ field_bytes p @ (concat (map field_bytes ps) @ post)"
    by (simp add: data_def)
  have d2: "data = (pre @ field_bytes p) @ concat (map field_bytes ps) @ post"
    by (simp add: data_def)
  have e: "i + 8 + (if 0 < wire_len (fst p) then wire_len (fst p) else 0) = j"
    using length_field_bytes [of p] by (simp add: i_def j_def)
  have h: "slice_of data (snd p, i + 8, wire_len (fst p)) = fst p"
    unfolding d i_def by (rule slice_of_field)
  have r: "map (slice_of data) (entries j ps) = map fst ps"
    unfolding d2 j_def by (rule Cons.IH)
  have "map (slice_of data) (entries i (p # ps)) = map fst (p # ps)"
    by (simp only: entries.simps e list.map h r)
  then show ?case by (simp only: data_def i_def)
qed

lemma types_entries: "map (\<lambda>(t, off, n). (t, BINARY)) (entries i ps) = map (\<lambda>p. (snd p, BINARY)) ps"
  by (induction ps arbitrary: i) simp_all

definition parts_of :: "bytes option \<times> oid \<Rightarrow> bytes list" where
  "parts_of p =
     (case fst p of
        None \<Rightarrow> [be_enc 4 (snd p) @ be_enc 4 (- 1)]
      | Some a \<Rightarrow> [be_enc 4 (snd p) @ be_enc 4 (int (length a)), a])"

lemma concat_parts_of: "concat (parts_of p) = field_bytes p"
  by (simp add: parts_of_def field_bytes_def wire_len_def split: option.splits)

lemma binary_field_dumped:
  assumes "binary_field_ok B tx item"
  shows "\<exists>p. binary_parts B tx item = Inr (parts_of p) \<and> wire_ok p
     \<and> load_sequence tx [(snd p, BINARY)] [fst p] = Inr [item]"
proof -
  obtain r where r: "tx_dump tx item BINARY = Inr r"
    using assms by (auto simp: binary_field_ok_def split: sum.splits)
  define p where "p = with_oid B r"
  have t: "0 \<le> snd p" "snd p < 2 ^ 32"
    using assms r by (simp_all add: binary_field_ok_def p_def)
  have w: "(case r of WithOid a t \<Rightarrow> (a, t) | Plain a \<Rightarrow> (a, text_oid B)) = (fst p, snd p)"
    by (simp add: p_def with_oid_def)
  show ?thesis
  proof (cases "fst p")
    case None
    then have i: "item = None" using assms r by (simp add: binary_field_ok_def p_def)
    have "binary_parts B tx item = Inr (parts_of p)"
      using t None
      by (simp add: binary_parts_def r w parts_of_def struct_oidlen_pack_def
          pack_unsigned_def pack_signed_def del: be_enc.simps)
    moreover have "wire_ok p" using t None by (simp add: wire_ok_def wire_len_def)
    moreover have "load_sequence tx [(snd p, BINARY)] [fst p] = Inr [item]"
      using None i by simp
    ultimately show ?thesis by blast
  next
    case (Some a)
    then have l: "int (length a) < 2 ^ 31"
      using assms r by (simp add: binary_field_ok_def p_def)
    obtain v where v: "item = Some v" "get_load_function tx (snd p) BINARY a = Inr v"
      using assms r Some by (auto simp: binary_field_ok_def p_def split: option.splits)
    have "binary_parts B tx item = Inr (parts_of p)"
      using t Some l
      by (simp add: binary_parts_def r w parts_of_def struct_oidlen_pack_def
          pack_unsigned_def pack_signed_def del: be_enc.simps)
    moreover have "wire_ok p" using t Some l by (simp add: wire_ok_def wire_len_def)
    moreover have "load_sequence tx [(snd p, BINARY)] [fst p] = Inr [item]"
      using Some v by simp
    ultimately show ?thesis by blast
  qed
qed

lemma load_sequence_Cons:
  "load_sequence tx [tf] [v] = Inr [x] \<Longrightarrow> load_sequence tx tfs vs = Inr xs
   \<Longrightarrow> load_sequence tx (tf # tfs) (v # vs) = Inr (x # xs)"
  by (cases tf) (auto split: option.splits sum.splits)

lemma binary_fields_dumped:
  assumes "list_all (binary_field_ok B tx) obj"
  shows "\<exists>ps. sequence (binary_parts B tx) obj = Inr (map parts_of ps) \<and> list_all wire_ok ps
     \<and> length ps = length obj
     \<and> load_sequence tx (map (\<lambda>p. (snd p, BINARY)) ps) (map fst ps) = Inr obj"
  using assms
proof (induction obj)
  case Nil
  have "sequence (binary_parts B tx) [] = Inr (map parts_of []) \<and> list_all wire_ok []
     \<and> length [] = length ([] :: 'a option list)
     \<and> load_sequence tx (map (\<lambda>p. (snd p, BINARY)) []) (map fst []) = Inr []"
    by simp
  then show ?case by blast
next
  case (Cons item obj)
  then obtain ps where ps: "sequence (binary_parts B tx) obj = Inr (map parts_of ps)"
      "list_all wire_ok ps" "length ps = length obj"
      "load_sequence tx (map (\<lambda>p. (snd p, BINARY)) ps) (map fst ps) = Inr obj"
    by auto
  obtain p where p: "binary_parts B tx item = Inr (parts_of p)" "wire_ok p"
      "load_sequence tx [(snd p, BINARY)] [fst p] = Inr [item]"
    using binary_field_dumped [of B tx item] Cons.prems by auto
  have "sequence (binary_parts B tx) (item # obj) = Inr (map parts_of (p # ps))
     \<and> list_all wire_ok (p # ps) \<and> length (p # ps) = length (item # obj)
     \<and> load_sequence tx (map (\<lambda>p. (snd p, BINARY)) (p # ps)) (map fst (p # ps))
          = Inr (item # obj)"
    using ps p load_sequence_Cons [OF p(3) ps(4)] by simp
  then show ?case by blast
qed


lemma concat_concat_parts: "concat (concat (map parts_of ps)) = concat (map field_bytes ps)"
  by (induction ps) (simp_all add: concat_parts_of)

lemma slice_of_fun:
  "(\<lambda>(t, off, n). if n \<noteq> - 1 then Some (py_slice data off (off + n)) else None) = slice_of data"
  by (rule ext) (simp add: slice_of_def)

lemma binary_roundtrip:
  assumes "int (length obj) < 2 ^ 31" and "list_all (binary_field_ok B tx) obj"
  shows "\<exists>data. binary_tuple_dump B tx t obj = Inr (data, t)
     \<and> fst (binary_record_load tx new_loader data) = Inr obj"
proof -
  obtain ps where ps: "sequence (binary_parts B tx) obj = Inr (map parts_of ps)"
      "list_all wire_ok ps" "length ps = length obj"
      "load_sequence tx (map (\<lambda>p. (snd p, BINARY)) ps) (map fst ps) = Inr obj"
    using binary_fields_dumped [OF assms(2)] by blast
  define h where "h = be_enc 4 (int (length obj))"
  define data where "data = h @ concat (map field_bytes ps) @ []"
  have lh: "length h = 4" by (simp add: h_def)
  have pk: "struct_len_pack (int (length obj)) = Inr h"
    using assms(1) by (simp add: struct_len_pack_def pack_signed_def h_def)
  have d: "binary_tuple_dump B tx t obj = Inr (data, t)"
    by (simp add: binary_tuple_dump_def pk ps(1) concat_concat_parts data_def)
  have "take 4 (drop (nat 0) data) = h" by (simp add: data_def lh)
  moreover have "unpack_signed 4 h = Inr (int (length obj))"
    unfolding h_def using assms(1) by (intro unpack_signed_be_enc4) simp_all
  ultimately have n: "struct_len_unpack_from data 0 = Inr (int (length obj))"
    by (simp add: struct_len_unpack_from_def data_def lh)
  have "walk_fields (length ps) data (int (length h)) = Inr (entries (int (length h)) ps)"
    unfolding data_def by (rule walk_fields_entries [OF ps(2)])
  then have w: "walk_record data = Inr (entries 4 ps)"
    by (simp add: walk_record_def n ps(3) lh)
  have sl: "map (slice_of data) (entries 4 ps) = map fst ps"
    using slices_entries [of h ps "[]"] by (simp add: data_def lh)
  have "fst (binary_record_load tx new_loader data) = Inr obj"
    by (simp add: binary_record_load_def new_loader_def config_types_def w types_entries
        slice_of_fun sl ps(4))
  then show ?thesis using d by blast
qed

subsection \<open>Composite round trip\<close>

text \<open>A transformer whose values are byte strings, dumped and loaded as they are.\<close>

definition bytes_tx :: "(bytes, bytes) transformer" where
  "bytes_tx = \<lparr>
     tx_dump = (\<lambda>item f. case item of
                  None \<Rightarrow> Inr (Plain None)
                | Some b \<Rightarrow> Inr (WithOid (Some b) (text_oid pg_builtins))),
     get_load_function = (\<lambda>t f b. Inr b)\<rparr>"

text \<open>
  Claim C2, as stated for every composite value, fails in the text layout. The tuple
  \<^verbatim>\<open>(None,)\<close> is dumped as \<^verbatim>\<open>()\<close> and loaded as the empty tuple; the field \<^verbatim>\<open>a)b\<close> is
  written unquoted and loaded as two fields; a field \<^verbatim>\<open>(a\<close> after the first loses its
  parenthesis; two backslashes are written as they are, inside quotes, and loaded as one.
\<close>

theorem text_layout_roundtrip_fails:
  "text_tuple_dump bytes_tx 25 [None] = Inr (''()'', 25)
   \<and> record_load pg_builtins bytes_tx ''()'' = Inr []
   \<and> record_load pg_builtins bytes_tx ''()'' \<noteq> Inr [None]
   \<and> text_tuple_dump bytes_tx 25 [Some ''a)b''] = Inr (''(a)b)'', 25)
   \<and> record_load pg_builtins bytes_tx ''(a)b)'' = Inr [Some ''a'', Some ''b'']
   \<and> text_tuple_dump bytes_tx 25 [Some ''x'', Some ''(a''] = Inr (''(x,(a)'', 25)
   \<and> record_load pg_builtins bytes_tx ''(x,(a)'' = Inr [Some ''x'', Some ''a'']
   \<and> text_tuple_dump bytes_tx 25 [Some [backslash, backslash]]
       = Inr ([CHR ''('', dquote, backslash, backslash, dquote, CHR '')''], 25)
   \<and> record_load pg_builtins bytes_tx
         [CHR ''('', dquote, backslash, backslash, dquote, CHR '')''] = Inr [Some [backslash]]"
proof -
  have 1: "text_tuple_dump bytes_tx 25 [None] = Inr (''()'', 25)"
    by (simp add: text_tuple_dump_def text_parts_def)
  have 2: "record_load pg_builtins bytes_tx ''()'' = Inr []"
    by (simp add: record_load_def parse_record_def)
  have 3: "text_tuple_dump bytes_tx 25 [Some ''a)b''] = Inr (''(a)b)'', 25)"
    by code_simp
  have 4: "record_load pg_builtins bytes_tx ''(a)b)'' = Inr [Some ''a'', Some ''b'']"
    by code_simp
  have 5: "text_tuple_dump bytes_tx 25 [Some ''x'', Some ''(a''] = Inr (''(x,(a)'', 25)"
    by code_simp
  have 6: "record_load pg_builtins bytes_tx ''(x,(a)'' = Inr [Some ''x'', Some ''a'']"
    by code_simp
  have 7: "text_tuple_dump bytes_tx 25 [Some [backslash, backslash]]
      = Inr ([CHR ''('', dquote, backslash, backslash, dquote, CHR '')''], 25)"
    by code_simp
  have 8: "record_load pg_builtins bytes_tx
      [CHR ''('', dquote, backslash, backslash, dquote, CHR '')''] = Inr [Some [backslash]]"
    by code_simp
  show ?thesis by (simp only: 1 2 3 4 5 6 7 8) simp
qed

text \<open>
  Claim C2, amended. Binary layout: a tuple of fewer than \<open>2^31\<close> fields, each of which is
  dumped with an oid that fits 32 bits and a payload shorter than \<open>2^31\<close> bytes that the
  load function of that oid turns back into the field, \<^verbatim>\<open>None\<close> and only \<^verbatim>\<open>None\<close> being dumped
  as NULL, is loaded by a new \<^verbatim>\<open>BinaryRecordLoader\<close> from what \<^verbatim>\<open>BinaryTupleDumper\<close> wrote as
  the same tuple. Text layout: a tuple other than \<^verbatim>\<open>(None,)\<close> whose fields are \<^verbatim>\<open>None\<close> or
  are dumped to a payload that the text loader turns back into the field, that holds no
  two backslashes in a row when the dumper quotes it, and no closing parenthesis and,
  after the first field, no opening parenthesis at its start when the dumper does not,
  is loaded by \<^verbatim>\<open>RecordLoader\<close> from what \<^verbatim>\<open>TextTupleDumper\<close> wrote as the same tuple.
\<close>

theorem composite_roundtrip:
  "(obj \<noteq> [None] \<and> text_fields_ok B tx obj \<longrightarrow>
      (\<exists>data. text_tuple_dump tx t obj = Inr (data, t) \<and> record_load B tx data = Inr obj))
   \<and> (int (length obj) < 2 ^ 31 \<and> list_all (binary_field_ok B tx) obj \<longrightarrow>
      (\<exists>data. binary_tuple_dump B tx t obj = Inr (data, t)
         \<and> fst (binary_record_load tx new_loader data) = Inr obj))"
  using text_roundtrip [of obj B tx t] binary_roundtrip [of obj B tx t] by blast

theorem composite_roundtrip_witness:
  "[Some ''(x'', None, Some ''a b'', Some [dquote, backslash], Some []] \<noteq> [None]
   \<and> text_fields_ok pg_builtins bytes_tx
        [Some ''(x'', None, Some ''a b'', Some [dquote, backslash], Some []]
   \<and> (\<exists>data. text_tuple_dump bytes_tx 2249
          [Some ''(x'', None, Some ''a b'', Some [dquote, backslash], Some []] = Inr (data, 2249)
        \<and> record_load pg_builtins bytes_tx data
          = Inr [Some ''(x'', None, Some ''a b'', Some [dquote, backslash], Some []])
   \<and> int (length [None :: bytes option]) < 2 ^ 31
   \<and> list_all (binary_field_ok pg_builtins bytes_tx) [None]
   \<and> (\<exists>data. binary_tuple_dump pg_builtins bytes_tx 2249 [None] = Inr (data, 2249)
        \<and> fst (binary_record_load bytes_tx new_loader data) = Inr [None])
   \<and> list_all (binary_field_ok pg_builtins bytes_tx) [Some ''a)b'', None, Some []]
   \<and> (\<exists>data. binary_tuple_dump pg_builtins bytes_tx 2249 [Some ''a)b'', None, Some []]
          = Inr (data, 2249)
        \<and> fst (binary_record_load bytes_tx new_loader data) = Inr [Some ''a)b'', None, Some []])"
proof -
  let ?c = "[Some ''(x'', None, Some ''a b'', Some [dquote, backslash], Some []]"
  have h1: "?c \<noteq> [None]" by simp
  have h2: "text_fields_ok pg_builtins bytes_tx ?c" by code_simp
  have h3: "int (length [None :: bytes option]) < 2 ^ 31" by simp
  have h4: "list_all (binary_field_ok pg_builtins bytes_tx) [None]" by code_simp
  have h5: "int (length [Some ''a)b'', None, Some []]) < 2 ^ 31" by simp
  have h6: "list_all (binary_field_ok pg_builtins bytes_tx) [Some ''a)b'', None, Some []]"
    by code_simp
  show ?thesis
    using composite_roundtrip [of ?c pg_builtins bytes_tx 2249]
      composite_roundtrip [of "[None]" pg_builtins bytes_tx 2249]
      composite_roundtrip [of "[Some ''a)b'', None, Some []]" pg_builtins bytes_tx 2249]
      h1 h2 h3 h4 h5 h6
    by blast
qed

end
